theory Spec2Isabelle
  imports Main "HOL-Library.Word"
begin

section \<open>Common\<close>

text \<open>
  Every way in which one of the modelled routines can stop without returning:
  a read through a null pointer, a failed \<^verbatim>\<open>DR_ASSERT\<close>/\<^verbatim>\<open>CLIENT_ASSERT\<close>,
  the \<^verbatim>\<open>FATAL\<close> macro (print and \<^verbatim>\<open>dr_abort\<close>), a \<^verbatim>\<open>va_arg\<close> read past the
  arguments that were passed, and a loop that cannot advance.
\<close>

datatype fault = NULL_DEREF | ASSERT_FAILED | FATAL_ABORT | VA_ARG_OVERRUN | DIVERGES

section \<open>Annotation handlers: core/client/annot.c\<close>

subsection \<open>Operands and instructions\<close>

text \<open>
  Modelled from the spec: the instruction and operand types and their accessors
  (instr.h, instr_create.h), which annot.c includes and which are not among the source
  files. The spec lists them as the collaborator API: opcode and operand inspection,
  instruction construction, block edit primitives. They are kept as far as annot.c
  inspects them. Addresses (\<^verbatim>\<open>app_pc\<close>, \<^verbatim>\<open>ptr_uint_t\<close>) are only compared, never
  added, so they are natural numbers, with 0 for \<^verbatim>\<open>NULL\<close>.
\<close>

datatype reg_id_t =
  DR_REG_XAX | DR_REG_XCX | DR_REG_XDX | DR_REG_XBX
  | DR_REG_XSP | DR_REG_XBP | DR_REG_XSI | DR_REG_XDI

datatype opnd_t = OPND_REG reg_id_t | OPND_IMMED int | OPND_PC nat | OPND_MEM nat

definition opnd_create_reg :: "reg_id_t \<Rightarrow> opnd_t" where
  "opnd_create_reg r = OPND_REG r"

definition opnd_same :: "opnd_t \<Rightarrow> opnd_t \<Rightarrow> bool" where
  "opnd_same a b = (a = b)"

fun opnd_is_immed :: "opnd_t \<Rightarrow> bool" where
  "opnd_is_immed (OPND_IMMED v) = True"
| "opnd_is_immed _ = False"

fun opnd_get_immed_int :: "opnd_t \<Rightarrow> int option" where
  "opnd_get_immed_int (OPND_IMMED v) = Some v"
| "opnd_get_immed_int _ = None"

datatype opcode_t =
  OP_xchg | OP_rol | OP_xor | OP_call | OP_call_far | OP_call_ind | OP_LABEL | OP_other nat

datatype instr_flag = INSTR_ANNOTATION

datatype handler_type =
  ANNOT_HANDLER_CALL | ANNOT_HANDLER_RETURN_VALUE | ANNOT_HANDLER_VALGRIND

datatype handler_id = Annotation_func nat | Vg_request_id nat

text \<open>
  The \<^verbatim>\<open>instrumentation\<close> union of a handler. Callbacks are function pointers: the
  model stores the pointer, and what calling it returns is a parameter of the
  dispatcher below.
\<close>

datatype instrumentation_t = Callback nat | Return_value nat | Vg_callback nat

datatype annotation_handler_t =
  Annotation_handler
    (htype: handler_type)
    (id: handler_id)
    (instrumentation: instrumentation_t)
    (save_fpstate: bool)
    (num_args: nat)
    (args: "opnd_t list option")
    (next_handler: "annotation_handler_t option")

record instr_t =
  opcode :: opcode_t
  srcs :: "opnd_t list"
  dsts :: "opnd_t list"
  translation :: nat
  flags :: "instr_flag set"
  instr_note :: "annotation_handler_t option"
  ok_to_mangle :: bool

text \<open>
  Modelled from the spec: the accessors of instr.h. \<^verbatim>\<open>instr_get_src\<close> and
  \<^verbatim>\<open>instr_get_dst\<close> assert that the index is in range; a direct call is a near or a far
  call with an immediate target; the target of a branch is its first source, which has
  to be a pc operand; a label has no operands, an xor has its destination as second
  source.
\<close>

definition instr_get_src :: "instr_t \<Rightarrow> nat \<Rightarrow> opnd_t option" where
  "instr_get_src i n = (if n < length (srcs i) then Some (srcs i ! n) else None)"

definition instr_get_dst :: "instr_t \<Rightarrow> nat \<Rightarrow> opnd_t option" where
  "instr_get_dst i n = (if n < length (dsts i) then Some (dsts i ! n) else None)"

definition instr_get_app_pc :: "instr_t \<Rightarrow> nat" where
  "instr_get_app_pc i = translation i"

definition instr_is_call_direct :: "instr_t \<Rightarrow> bool" where
  "instr_is_call_direct i = (opcode i = OP_call \<or> opcode i = OP_call_far)"

definition instr_get_branch_target_pc :: "instr_t \<Rightarrow> nat option" where
  "instr_get_branch_target_pc i =
     (case instr_get_src i 0 of Some (OPND_PC t) \<Rightarrow> Some t | _ \<Rightarrow> None)"

definition INSTR_CREATE_label :: instr_t where
  "INSTR_CREATE_label =
     \<lparr>opcode = OP_LABEL, srcs = [], dsts = [], translation = 0, flags = {},
      instr_note = None, ok_to_mangle = True\<rparr>"

definition INSTR_CREATE_xor :: "opnd_t \<Rightarrow> opnd_t \<Rightarrow> instr_t" where
  "INSTR_CREATE_xor d s =
     \<lparr>opcode = OP_xor, srcs = [s, d], dsts = [d], translation = 0, flags = {},
      instr_note = None, ok_to_mangle = True\<rparr>"

definition INSTR_XL8 :: "instr_t \<Rightarrow> nat \<Rightarrow> instr_t" where
  "INSTR_XL8 i pc = i\<lparr>translation := pc\<rparr>"

text \<open>
  Modelled from the spec: the instruction list and the clean call of the host runtime
  (instrlist_t and \<^verbatim>\<open>dr_insert_clean_call\<close>, declared in instrument.h). A basic block
  is an instruction list. A clean call is expanded by the host runtime into meta
  instructions that save the machine state, call the callee and restore the state;
  the model keeps the expansion as one item that records the callee, the
  floating-point flag and the arguments.
\<close>

datatype callee_t = Handle_vg_annotation | Other_callee nat

datatype ilist_item = Instr instr_t | Clean_call callee_t bool "opnd_t list"

type_synonym instrlist_t = "ilist_item list"

text \<open>
  A pointer into the block is the index of the item, \<open>None\<close> for \<^verbatim>\<open>NULL\<close>.
\<close>

definition instrlist_last :: "instrlist_t \<Rightarrow> nat option" where
  "instrlist_last bb = (if bb = [] then None else Some (length bb - 1))"

definition instr_get_prev :: "nat \<Rightarrow> nat option" where
  "instr_get_prev p = (if p = 0 then None else Some (p - 1))"

definition instrlist_remove :: "instrlist_t \<Rightarrow> nat \<Rightarrow> instrlist_t" where
  "instrlist_remove bb p = take p bb @ drop (Suc p) bb"

definition instrlist_append :: "instrlist_t \<Rightarrow> instr_t \<Rightarrow> instrlist_t" where
  "instrlist_append bb i = bb @ [Instr i]"

text \<open>With \<^verbatim>\<open>where == NULL\<close> the clean call goes to the end of the list.\<close>

definition dr_insert_clean_call ::
  "instrlist_t \<Rightarrow> nat option \<Rightarrow> callee_t \<Rightarrow> bool \<Rightarrow> opnd_t list \<Rightarrow> instrlist_t" where
  "dr_insert_clean_call bb wh callee fpstate cargs =
     (case wh of
        None \<Rightarrow> bb @ [Clean_call callee fpstate cargs]
      | Some p \<Rightarrow> take p bb @ [Clean_call callee fpstate cargs] @ drop p bb)"

subsection \<open>The Valgrind pattern\<close>

definition expected_rol_immeds :: "bool \<Rightarrow> int list" where
  "expected_rol_immeds x64 = (if x64 then [3, 13, 61, 51] else [3, 13, 29, 19])"

definition VALGRIND_ANNOTATION_ROL_COUNT :: nat where
  "VALGRIND_ANNOTATION_ROL_COUNT = 4"

text \<open>
  The first loop of \<^verbatim>\<open>match_valgrind_pattern\<close>: \<^verbatim>\<open>for (i = 3; i >= 0; i--)\<close>, walking
  backwards from the last instruction of the block. The counter of the model is
  \<open>i + 1\<close>. Reading the opcode of \<^verbatim>\<open>instr_walk\<close> dereferences it.
\<close>

fun rol_loop :: "bool \<Rightarrow> instrlist_t \<Rightarrow> nat \<Rightarrow> nat option \<Rightarrow> fault + bool" where
  "rol_loop x64 bb 0 instr_walk = Inr True"
| "rol_loop x64 bb (Suc i) instr_walk =
     (case instr_walk of
        None \<Rightarrow> Inl NULL_DEREF
      | Some p \<Rightarrow>
          (case bb ! p of
             Clean_call c f a \<Rightarrow> Inr False
           | Instr w \<Rightarrow>
               if opcode w \<noteq> OP_rol then Inr False
               else
                 (case (instr_get_src w 0, instr_get_dst w 0) of
                    (Some src, Some dst) \<Rightarrow>
                      if \<not> opnd_is_immed src \<or>
                         opnd_get_immed_int src \<noteq> Some (expected_rol_immeds x64 ! i)
                      then Inr False
                      else if \<not> opnd_same dst (opnd_create_reg DR_REG_XDI) then Inr False
                      else rol_loop x64 bb i (instr_get_prev p)
                  | _ \<Rightarrow> Inl ASSERT_FAILED)))"

text \<open>
  The second loop: remove and destroy the last instruction of the block, four times.
  The destroyed items are collected in the order of their destruction.
\<close>

fun remove_loop ::
  "nat \<Rightarrow> instrlist_t \<Rightarrow> nat option \<Rightarrow> ilist_item list
     \<Rightarrow> fault + (instrlist_t \<times> ilist_item list)" where
  "remove_loop 0 bb instr destroyed = Inr (bb, destroyed)"
| "remove_loop (Suc n) bb instr destroyed =
     (case instr of
        None \<Rightarrow> Inl NULL_DEREF
      | Some p \<Rightarrow>
          remove_loop n (instrlist_remove bb p) (instr_get_prev p) (destroyed @ [bb ! p]))"

text \<open>
  The result is the returned boolean, the block, and the instructions passed to
  \<^verbatim>\<open>instr_destroy\<close>. The candidate exchange \<open>instr\<close> has been decoded but is not
  yet in the block.
\<close>

definition match_valgrind_pattern ::
  "bool \<Rightarrow> instrlist_t \<Rightarrow> instr_t \<Rightarrow> fault + (bool \<times> instrlist_t \<times> ilist_item list)" where
  "match_valgrind_pattern x64 bb instr =
     (case (instr_get_src instr 0, instr_get_dst instr 0) of
        (Some src, Some dst) \<Rightarrow>
          (let xbx = opnd_create_reg DR_REG_XBX in
           if \<not> opnd_same src xbx \<or> \<not> opnd_same dst xbx then Inr (False, bb, [])
           else
             (case rol_loop x64 bb VALGRIND_ANNOTATION_ROL_COUNT (instrlist_last bb) of
                Inl f \<Rightarrow> Inl f
              | Inr False \<Rightarrow> Inr (False, bb, [])
              | Inr True \<Rightarrow>
                  (let xchg_xl8 = instr_get_app_pc instr in
                   case remove_loop VALGRIND_ANNOTATION_ROL_COUNT bb (instrlist_last bb)
                          [Instr instr] of
                     Inl f \<Rightarrow> Inl f
                   | Inr (bb1, destroyed) \<Rightarrow>
                       Inr (True,
                            dr_insert_clean_call
                              (instrlist_append bb1
                                 (INSTR_XL8
                                    (INSTR_CREATE_xor (opnd_create_reg DR_REG_XBX)
                                       (opnd_create_reg DR_REG_XBX))
                                    xchg_xl8))
                              None Handle_vg_annotation False
                              [opnd_create_reg DR_REG_XAX],
                            destroyed))))
      | _ \<Rightarrow> Inl ASSERT_FAILED)"

subsection \<open>The handler registry\<close>

text \<open>
  Modelled from the spec: the generic hash table of the runtime (hashtable.h, not among
  the source files): a mapping from a pc to a handler, with a lookup, an insertion, and
  an iteration whose positions can be passed to a removal call that advances the
  cursor correctly. The table is the list of its occupied slots in iteration order:
  \<^verbatim>\<open>generic_hash_iterate_next\<close> returns the entry at the cursor and the next cursor,
  or a negative value (\<open>None\<close>) at the end;
  \<^verbatim>\<open>generic_hash_iterate_remove\<close> deletes the entry the cursor has just passed and
  returns the cursor at which the iteration goes on.
\<close>

type_synonym generic_table_t = "(nat \<times> annotation_handler_t) list"

definition generic_hash_lookup :: "generic_table_t \<Rightarrow> nat \<Rightarrow> annotation_handler_t option" where
  "generic_hash_lookup t k = map_of t k"

definition generic_hash_add ::
  "generic_table_t \<Rightarrow> nat \<Rightarrow> annotation_handler_t \<Rightarrow> generic_table_t" where
  "generic_hash_add t k h = t @ [(k, h)]"

definition generic_hash_iterate_next ::
  "generic_table_t \<Rightarrow> nat \<Rightarrow> (nat \<times> nat \<times> annotation_handler_t) option" where
  "generic_hash_iterate_next t iter =
     (if iter < length t then Some (Suc iter, fst (t ! iter), snd (t ! iter)) else None)"

definition generic_hash_iterate_remove ::
  "generic_table_t \<Rightarrow> nat \<Rightarrow> nat \<Rightarrow> generic_table_t \<times> nat" where
  "generic_hash_iterate_remove t iter k = (take (iter - 1) t @ drop iter t, iter - 1)"

record dr_mcontext_t =
  xax :: nat
  xcx :: nat
  xdx :: nat
  xbx :: nat
  xsp :: nat
  xbp :: nat
  xsi :: nat
  xdi :: nat

record vg_client_request_t =
  request :: nat
  vg_args :: "nat list"
  default_result :: nat

text \<open>
  The state annot.c works on: the table \<^verbatim>\<open>handlers\<close> with its reader/writer lock
  (the numbers of holders), the array \<^verbatim>\<open>vg_handlers\<close>, the integer registers of the
  instrumented thread, and the calls made to Valgrind callbacks so far (the callback
  pointer and the request block it was given).
\<close>

record annot_state =
  handlers :: generic_table_t
  lock_readers :: nat
  lock_writers :: nat
  vg_handlers :: "nat \<Rightarrow> annotation_handler_t option"
  mcontext :: dr_mcontext_t
  vg_calls :: "(nat \<times> vg_client_request_t) list"

text \<open>
  What the host runtime and the headers that are not among the source files provide,
  as parameters: the safe read of a request block from the address space of the
  program (\<open>None\<close> when it fails), the value a Valgrind callback returns, the export
  table of a module (0 when the symbol is not exported), and the enumerators of
  valgrind.h, memcheck.h and annot.h.
\<close>

record host_t =
  safe_read :: "nat \<Rightarrow> vg_client_request_t option"
  call_vg_callback :: "nat \<Rightarrow> vg_client_request_t \<Rightarrow> nat"
  dr_get_proc_address :: "nat \<Rightarrow> string \<Rightarrow> nat"
  VG_USERREQ__MAKE_MEM_DEFINED_IF_ADDRESSABLE :: nat
  VG_ID__MAKE_MEM_DEFINED_IF_ADDRESSABLE :: nat
  VG_ID__LAST :: nat

record module_data_t =
  module_handle :: nat
  module_start :: nat
  module_end :: nat

text \<open>
  Modelled from the spec: the reader/writer lock of the table (the macro
  \<^verbatim>\<open>TABLE_RWLOCK\<close> of hashtable.h). Readers may overlap and writers are exclusive;
  in the run of one thread taking the lock adds a holder and releasing it removes one.
\<close>

definition read_lock :: "annot_state \<Rightarrow> annot_state" where
  "read_lock st = st\<lparr>lock_readers := lock_readers st + 1\<rparr>"

definition read_unlock :: "annot_state \<Rightarrow> annot_state" where
  "read_unlock st = st\<lparr>lock_readers := lock_readers st - 1\<rparr>"

definition write_lock :: "annot_state \<Rightarrow> annot_state" where
  "write_lock st = st\<lparr>lock_writers := lock_writers st + 1\<rparr>"

definition write_unlock :: "annot_state \<Rightarrow> annot_state" where
  "write_unlock st = st\<lparr>lock_writers := lock_writers st - 1\<rparr>"

definition KEY :: "nat \<Rightarrow> nat" where
  "KEY a = a"

text \<open>
  \<^verbatim>\<open>convert_va_list_to_opnd\<close> reads \<open>num_args\<close> operands from the variable arguments;
  nothing checks that so many were passed.
\<close>

definition convert_va_list_to_opnd :: "nat \<Rightarrow> opnd_t list \<Rightarrow> fault + opnd_t list" where
  "convert_va_list_to_opnd n ap = (if length ap < n then Inl VA_ARG_OVERRUN else Inr (take n ap))"

definition annot_register_call ::
  "annot_state \<Rightarrow> nat \<Rightarrow> nat \<Rightarrow> bool \<Rightarrow> nat \<Rightarrow> opnd_t list \<Rightarrow> fault + annot_state" where
  "annot_register_call st annotation_func callback fpstate n ap =
     (let st1 = write_lock st in
      case generic_hash_lookup (handlers st1) (KEY annotation_func) of
        None \<Rightarrow>
          (case (if n = 0 then Inr None
                 else (case convert_va_list_to_opnd n ap of
                         Inl f \<Rightarrow> Inl f | Inr a \<Rightarrow> Inr (Some a))) of
             Inl f \<Rightarrow> Inl f
           | Inr a \<Rightarrow>
               Inr (write_unlock
                      (st1\<lparr>handlers :=
                             generic_hash_add (handlers st1) (KEY annotation_func)
                               (Annotation_handler ANNOT_HANDLER_CALL
                                  (Annotation_func annotation_func) (Callback callback)
                                  fpstate n a None)\<rparr>)))
      | Some handler \<Rightarrow> Inr (write_unlock st1))"

text \<open>
  \<^verbatim>\<open>annot_register_return\<close> leaves the field \<^verbatim>\<open>args\<close> unset; with \<open>num_args = 0\<close>
  nothing reads it.
\<close>

definition annot_register_return :: "annot_state \<Rightarrow> nat \<Rightarrow> nat \<Rightarrow> annot_state" where
  "annot_register_return st annotation_func return_value =
     (let st1 = write_lock st in
      case generic_hash_lookup (handlers st1) (KEY annotation_func) of
        None \<Rightarrow>
          write_unlock
            (st1\<lparr>handlers :=
                   generic_hash_add (handlers st1) (KEY annotation_func)
                     (Annotation_handler ANNOT_HANDLER_RETURN_VALUE
                        (Annotation_func annotation_func) (Return_value return_value)
                        False 0 None None)\<rparr>)
      | Some handler \<Rightarrow> write_unlock st1)"

definition annot_register_valgrind :: "host_t \<Rightarrow> annot_state \<Rightarrow> nat \<Rightarrow> nat \<Rightarrow> annot_state" where
  "annot_register_valgrind H st request_id annotation_callback =
     (if request_id \<ge> VG_ID__LAST H then st
      else
        (let st1 = write_lock st in
         case vg_handlers st1 request_id of
           None \<Rightarrow>
             write_unlock
               (st1\<lparr>vg_handlers :=
                      (vg_handlers st1)
                        (request_id :=
                           Some (Annotation_handler ANNOT_HANDLER_VALGRIND
                                   (Vg_request_id request_id)
                                   (Vg_callback annotation_callback) False 0 None None))\<rparr>)
         | Some handler \<Rightarrow> write_unlock st1))"

text \<open>
  The loop of \<^verbatim>\<open>annot_match\<close> over the chain of handlers: one label per link, flagged
  as an annotation, carrying the handler as its note, not to be mangled, linked
  behind the labels made so far.
\<close>

fun label_loop :: "annotation_handler_t option \<Rightarrow> instr_t list \<Rightarrow> instr_t list" where
  "label_loop None chain = chain"
| "label_loop (Some (Annotation_handler t i ins fp n a nxt)) chain =
     label_loop nxt
       (chain @
        [INSTR_CREATE_label
           \<lparr>flags := insert INSTR_ANNOTATION (flags INSTR_CREATE_label),
            instr_note := Some (Annotation_handler t i ins fp n a nxt),
            ok_to_mangle := False\<rparr>])"

text \<open>
  The result is the state, the instruction behind the pointer \<open>instr\<close> as it is on
  return, and the chain \<^verbatim>\<open>first_call\<close>, empty for \<^verbatim>\<open>NULL\<close>.
\<close>

definition annot_match ::
  "annot_state \<Rightarrow> instr_t \<Rightarrow> fault + (annot_state \<times> instr_t \<times> instr_t list)" where
  "annot_match st instr =
     (if instr_is_call_direct instr then
        (case instr_get_branch_target_pc instr of
           None \<Rightarrow> Inl ASSERT_FAILED
         | Some target \<Rightarrow>
             (let st1 = read_lock st;
                  handler = generic_hash_lookup (handlers st1) target;
                  first_call = label_loop handler []
              in Inr (read_unlock st1, instr, first_call)))
      else Inr (st, instr, []))"

definition lookup_valgrind_request :: "host_t \<Rightarrow> nat \<Rightarrow> nat" where
  "lookup_valgrind_request H r =
     (if r = VG_USERREQ__MAKE_MEM_DEFINED_IF_ADDRESSABLE H
      then VG_ID__MAKE_MEM_DEFINED_IF_ADDRESSABLE H
      else VG_ID__LAST H)"

text \<open>The member \<^verbatim>\<open>vg_callback\<close> of the union, whatever member was stored.\<close>

fun vg_callback :: "instrumentation_t \<Rightarrow> nat" where
  "vg_callback (Vg_callback p) = p"
| "vg_callback (Callback p) = p"
| "vg_callback (Return_value v) = v"

definition handle_vg_annotation :: "host_t \<Rightarrow> annot_state \<Rightarrow> nat \<Rightarrow> annot_state" where
  "handle_vg_annotation H st request_args =
     (case safe_read H request_args of
        None \<Rightarrow> st
      | Some req \<Rightarrow>
          (let request_id = lookup_valgrind_request H (request req);
               (st3, result) =
                 (if request_id < VG_ID__LAST H then
                    (let st1 = read_lock st;
                         (st2, r) =
                           (case vg_handlers st1 request_id of
                              None \<Rightarrow> (st1, default_result req)
                            | Some handler \<Rightarrow>
                                (st1\<lparr>vg_calls :=
                                       vg_calls st1 @
                                       [(vg_callback (instrumentation handler), req)]\<rparr>,
                                 call_vg_callback H
                                   (vg_callback (instrumentation handler)) req))
                     in (read_unlock st2, r))
                  else (st, default_result req))
           in st3\<lparr>mcontext := (mcontext st3)\<lparr>xbx := result\<rparr>\<rparr>))"

definition event_module_load :: "host_t \<Rightarrow> annot_state \<Rightarrow> module_data_t \<Rightarrow> bool \<Rightarrow> annot_state" where
  "event_module_load H st info loaded =
     (let target =
            dr_get_proc_address H (module_handle info)
              ''dynamorio_annotate_running_on_dynamorio''
      in if target \<noteq> 0 then annot_register_return st target 1 else st)"

text \<open>
  The loop of \<^verbatim>\<open>event_module_unload\<close>: take the next entry, stop when there is none,
  remove it when its key lies strictly between the bounds of the module.
\<close>

function sweep_loop :: "nat \<Rightarrow> nat \<Rightarrow> generic_table_t \<Rightarrow> nat \<Rightarrow> generic_table_t" where
  "sweep_loop lo hi t iter =
     (case generic_hash_iterate_next t iter of
        None \<Rightarrow> t
      | Some (iter1, k, handler) \<Rightarrow>
          if k > lo \<and> k < hi then
            (case generic_hash_iterate_remove t iter1 k of
               (t1, iter2) \<Rightarrow> sweep_loop lo hi t1 iter2)
          else sweep_loop lo hi t iter1)"
  by pat_completeness auto
termination
  by (relation "measure (\<lambda>(lo, hi, t, iter). length t - iter)")
     (auto simp: generic_hash_iterate_next_def generic_hash_iterate_remove_def
           split: if_splits)

declare sweep_loop.simps [simp del]

definition event_module_unload :: "annot_state \<Rightarrow> module_data_t \<Rightarrow> annot_state" where
  "event_module_unload st info =
     (let st1 = write_lock st in
      write_unlock
        (st1\<lparr>handlers := sweep_loop (module_start info) (module_end info) (handlers st1) 0\<rparr>))"

text \<open>A run of registrations for the same annotation function.\<close>

fun register_calls ::
  "annot_state \<Rightarrow> nat \<Rightarrow> (nat \<times> bool \<times> nat \<times> opnd_t list) list \<Rightarrow> fault + annot_state" where
  "register_calls st f [] = Inr st"
| "register_calls st f ((callback, fpstate, n, ap) # rest) =
     (case annot_register_call st f callback fpstate n ap of
        Inl e \<Rightarrow> Inl e
      | Inr st1 \<Rightarrow> register_calls st1 f rest)"

section \<open>The memory tracer: tracer.cpp\<close>

subsection \<open>Memory, trace entries, and the state of a thread\<close>

text \<open>
  Memory is a map from addresses to bytes; pointers are natural numbers, 0 is
  \<^verbatim>\<open>NULL\<close>, and a difference of two pointers is an integer. \<^verbatim>\<open>memset\<close> is the one of
  the C library.
\<close>

type_synonym mem_t = "nat \<Rightarrow> 8 word"

definition memset :: "mem_t \<Rightarrow> nat \<Rightarrow> 8 word \<Rightarrow> nat \<Rightarrow> mem_t" where
  "memset m p v n = (\<lambda>a. if p \<le> a \<and> a < p + n then v else m a)"

datatype trace_type_t =
  TRACE_TYPE_READ | TRACE_TYPE_WRITE | TRACE_TYPE_INSTR | TRACE_TYPE_INSTR_BUNDLE
  | TRACE_TYPE_THREAD | TRACE_TYPE_THREAD_EXIT | TRACE_TYPE_PID | TRACE_TYPE_OTHER nat

text \<open>
  The instrumentation strategy \<^verbatim>\<open>instru_t\<close> (instru.h, not among the source files)
  hides the layout of an entry; it is a parameter. The tracer uses the size of an
  entry, the readers of the type and of the address of the entry at a pointer, and the
  writers that store an address, a unit header or a thread id at a pointer.
\<close>

record instru_t =
  sizeof_entry :: nat
  get_entry_type :: "mem_t \<Rightarrow> nat \<Rightarrow> trace_type_t"
  get_entry_addr :: "mem_t \<Rightarrow> nat \<Rightarrow> nat"
  set_entry_addr :: "mem_t \<Rightarrow> nat \<Rightarrow> nat \<Rightarrow> mem_t"
  append_unit_header :: "mem_t \<Rightarrow> nat \<Rightarrow> nat \<Rightarrow> mem_t"
  append_tid :: "mem_t \<Rightarrow> nat \<Rightarrow> nat \<Rightarrow> mem_t"

record per_thread_t =
  seg_base :: nat
  buf_base :: nat
  num_refs :: "64 word"
  bytes_written :: "64 word"
  trace_file :: nat
  init_header_size :: nat
  num_buffers :: "32 word"
  reserve_buf :: nat
  l0_dcache :: nat
  l0_icache :: nat

text \<open>
  What is fixed once the client is initialised: the strategy, the options that are
  only read, whether physical addresses are available and the translation, the atomic
  write size of the pipe, the file operations (what the handoff callback, the file write
  and the pipe write return for their arguments), and the id of the thread.
\<close>

record tracer_config =
  instru :: instru_t
  op_offline :: bool
  op_use_physical :: bool
  have_phys :: bool
  virtual2physical :: "nat \<Rightarrow> nat"
  get_atomic_write_size :: int
  handoff_buf :: "(nat \<Rightarrow> nat \<Rightarrow> int \<Rightarrow> nat \<Rightarrow> bool) option"
  write_file :: "nat \<Rightarrow> nat \<Rightarrow> int \<Rightarrow> int"
  ipc_pipe_write :: "nat \<Rightarrow> int \<Rightarrow> int"
  dr_get_thread_id :: nat

definition MAX_NUM_ENTRIES :: nat where
  "MAX_NUM_ENTRIES = 4096"

definition BUF_HDR_SLOTS :: nat where
  "BUF_HDR_SLOTS = 1"

definition trace_buf_size :: "tracer_config \<Rightarrow> nat" where
  "trace_buf_size C = sizeof_entry (instru C) * MAX_NUM_ENTRIES"

definition redzone_size :: "tracer_config \<Rightarrow> nat" where
  "redzone_size C = sizeof_entry (instru C) * MAX_NUM_ENTRIES"

definition max_buf_size :: "tracer_config \<Rightarrow> nat" where
  "max_buf_size C = trace_buf_size C + redzone_size C"

definition buf_hdr_slots_size :: "tracer_config \<Rightarrow> nat" where
  "buf_hdr_slots_size C = sizeof_entry (instru C) * BUF_HDR_SLOTS"

text \<open>
  What the tracer changes: the data of the thread, memory, the TLS slot with the
  buffer pointer, the option \<^verbatim>\<open>max_trace_size\<close> (which \<^verbatim>\<open>create_buffer\<close> sets), the
  calls made to the pipe, the file and the handoff callback, and the results of the
  calls of \<^verbatim>\<open>dr_raw_mem_alloc\<close> still to come (0 for a failed allocation).
\<close>

datatype io_event =
  Pipe_write nat int
  | File_write nat nat int
  | Handoff nat nat int nat

record tracer_state =
  data :: per_thread_t
  memory :: mem_t
  BUF_PTR :: nat
  op_max_trace_size :: "64 word"
  io_log :: "io_event list"
  alloc_results :: "nat list"

text \<open>
  A routine either returns, or stops the process with a fault; the state at the fault
  is kept, so that what had been written before is still visible.
\<close>

type_synonym 'a result = "(fault \<times> tracer_state) + 'a"

text \<open>
  Modelled from the spec: \<^verbatim>\<open>dr_raw_mem_alloc\<close> of the host runtime, which gives
  read/write memory, zeroed, or \<^verbatim>\<open>NULL\<close>.
\<close>

definition dr_raw_mem_alloc :: "tracer_state \<Rightarrow> nat \<Rightarrow> nat \<times> tracer_state" where
  "dr_raw_mem_alloc st n =
     (case alloc_results st of
        [] \<Rightarrow> (0, st)
      | p # rest \<Rightarrow>
          (p, st\<lparr>alloc_results := rest,
                 memory := (if p = 0 then memory st else memset (memory st) p 0 n)\<rparr>))"

subsection \<open>Buffers\<close>

definition create_buffer :: "tracer_config \<Rightarrow> tracer_state \<Rightarrow> tracer_state result" where
  "create_buffer C st =
     (case dr_raw_mem_alloc st (max_buf_size C) of
        (p, st0) \<Rightarrow>
          (let st1 = st0\<lparr>data := (data st0)\<lparr>buf_base := p\<rparr>\<rparr> in
           if buf_base (data st1) = 0 then
             (if reserve_buf (data st1) = 0 then Inl (FATAL_ABORT, st1)
              else
                Inr (st1\<lparr>data := (data st1)\<lparr>buf_base := reserve_buf (data st1)\<rparr>,
                         op_max_trace_size := bytes_written (data st1) - 1\<rparr>))
           else
             (let st2 =
                    st1\<lparr>memory :=
                          memset (memory st1) (buf_base (data st1) + trace_buf_size C) (- 1)
                            (redzone_size C)\<rparr>;
                  st3 = st2\<lparr>data := (data st2)\<lparr>num_buffers := num_buffers (data st2) + 1\<rparr>\<rparr>
              in
                if num_buffers (data st3) = 2 then
                  (case dr_raw_mem_alloc st3 (max_buf_size C) of
                     (r, st4) \<Rightarrow>
                       (let st5 = st4\<lparr>data := (data st4)\<lparr>reserve_buf := r\<rparr>\<rparr> in
                        if reserve_buf (data st5) \<noteq> 0 then
                          Inr (st5\<lparr>memory :=
                                     memset (memory st5)
                                       (reserve_buf (data st5) + trace_buf_size C) (- 1)
                                       (redzone_size C)\<rparr>)
                        else Inr st5))
                else Inr st3)))"

subsection \<open>Writing\<close>

text \<open>
  \<^verbatim>\<open>DR_ASSERT\<close> prints and aborts when its condition is false. The write to the pipe
  is recorded when it is issued, before its result is looked at.
\<close>

definition atomic_pipe_write ::
  "tracer_config \<Rightarrow> tracer_state \<Rightarrow> nat \<Rightarrow> nat \<Rightarrow> (tracer_state \<times> nat) result" where
  "atomic_pipe_write C st pipe_start pipe_end =
     (let towrite = int pipe_end - int pipe_start in
      if \<not> (towrite \<le> get_atomic_write_size C \<and> towrite > int (buf_hdr_slots_size C))
      then Inl (ASSERT_FAILED, st)
      else
        (let st1 = st\<lparr>io_log := io_log st @ [Pipe_write pipe_start towrite]\<rparr> in
         if ipc_pipe_write C pipe_start towrite < towrite then Inl (ASSERT_FAILED, st1)
         else if \<not> (int pipe_end - int (buf_hdr_slots_size C) > int pipe_start)
         then Inl (ASSERT_FAILED, st1)
         else
           (let pipe_start1 = pipe_end - buf_hdr_slots_size C in
            Inr (st1\<lparr>memory :=
                       append_tid (instru C) (memory st1) pipe_start1 (dr_get_thread_id C)\<rparr>,
                 pipe_start1))))"

definition write_trace_data ::
  "tracer_config \<Rightarrow> tracer_state \<Rightarrow> nat \<Rightarrow> nat \<Rightarrow> (tracer_state \<times> nat) result" where
  "write_trace_data C st towrite_start towrite_end =
     (if op_offline C then
        (let size = int towrite_end - int towrite_start in
         case handoff_buf C of
           Some handoff \<Rightarrow>
             (let st1 =
                    st\<lparr>io_log :=
                         io_log st @
                         [Handoff (trace_file (data st)) towrite_start size (max_buf_size C)]\<rparr>
              in
                if \<not> handoff (trace_file (data st)) towrite_start size (max_buf_size C)
                then Inl (FATAL_ABORT, st1)
                else Inr (st1, towrite_start))
         | None \<Rightarrow>
             (let st1 =
                    st\<lparr>io_log := io_log st @ [File_write (trace_file (data st)) towrite_start size]\<rparr>
              in
                if write_file C (trace_file (data st)) towrite_start size < size
                then Inl (FATAL_ABORT, st1)
                else Inr (st1, towrite_start)))
      else atomic_pipe_write C st towrite_start towrite_end)"

subsection \<open>The drain\<close>

text \<open>
  One iteration of the loop over the entries of \<^verbatim>\<open>memtrace\<close>, for the entry at
  \<open>mem_ref\<close>: count it, translate its address when physical addresses are asked for,
  and, when writing to the pipe, move \<open>pipe_end\<close> to an instruction entry, after a
  write of what lies before \<open>pipe_end\<close> when the entry is too far from \<open>pipe_start\<close>.
\<close>

definition translate_entry :: "tracer_config \<Rightarrow> tracer_state \<Rightarrow> nat \<Rightarrow> tracer_state result" where
  "translate_entry C st mem_ref =
     (if have_phys C \<and> op_use_physical C then
        (let type = get_entry_type (instru C) (memory st) mem_ref in
         if type \<noteq> TRACE_TYPE_THREAD \<and> type \<noteq> TRACE_TYPE_THREAD_EXIT \<and>
            type \<noteq> TRACE_TYPE_PID
         then
           (let virt = get_entry_addr (instru C) (memory st) mem_ref;
                phys = virtual2physical C virt
            in
              if \<not> type \<noteq> TRACE_TYPE_INSTR_BUNDLE then Inl (ASSERT_FAILED, st)
              else if phys \<noteq> 0
              then Inr (st\<lparr>memory := set_entry_addr (instru C) (memory st) mem_ref phys\<rparr>)
              else Inr st)
         else Inr st)
      else Inr st)"

definition entry_step ::
  "tracer_config \<Rightarrow> tracer_state \<Rightarrow> nat \<Rightarrow> nat \<Rightarrow> nat
     \<Rightarrow> (tracer_state \<times> nat \<times> nat) result" where
  "entry_step C st pipe_start pipe_end mem_ref =
     (let st1 = st\<lparr>data := (data st)\<lparr>num_refs := num_refs (data st) + 1\<rparr>\<rparr> in
      case translate_entry C st1 mem_ref of
        Inl e \<Rightarrow> Inl e
      | Inr st2 \<Rightarrow>
          if \<not> op_offline C then
            (if get_entry_type (instru C) (memory st2) mem_ref = TRACE_TYPE_INSTR then
               (if int mem_ref - int pipe_start > get_atomic_write_size C then
                  (case atomic_pipe_write C st2 pipe_start pipe_end of
                     Inl e \<Rightarrow> Inl e
                   | Inr (st3, pipe_start1) \<Rightarrow> Inr (st3, pipe_start1, mem_ref))
                else Inr (st2, pipe_start, mem_ref))
             else Inr (st2, pipe_start, pipe_end))
          else Inr (st2, pipe_start, pipe_end))"

text \<open>
  The loop \<^verbatim>\<open>for (mem_ref = ...; mem_ref < buf_ptr; mem_ref += sizeof_entry())\<close>. With
  an entry size of 0 it would not advance.
\<close>

function entry_loop ::
  "tracer_config \<Rightarrow> nat \<Rightarrow> tracer_state \<Rightarrow> nat \<Rightarrow> nat \<Rightarrow> nat
     \<Rightarrow> (tracer_state \<times> nat \<times> nat) result" where
  "entry_loop C buf_ptr st pipe_start pipe_end mem_ref =
     (if mem_ref < buf_ptr then
        (if sizeof_entry (instru C) = 0 then Inl (DIVERGES, st)
         else
           (case entry_step C st pipe_start pipe_end mem_ref of
              Inl e \<Rightarrow> Inl e
            | Inr (st1, pipe_start1, pipe_end1) \<Rightarrow>
                entry_loop C buf_ptr st1 pipe_start1 pipe_end1
                  (mem_ref + sizeof_entry (instru C))))
      else Inr (st, pipe_start, pipe_end))"
  by pat_completeness auto
termination
  by (relation "measure (\<lambda>(C, buf_ptr, st, pipe_start, pipe_end, mem_ref). buf_ptr - mem_ref)")
     auto

declare entry_loop.simps [simp del]

text \<open>The part of \<^verbatim>\<open>memtrace\<close> under \<^verbatim>\<open>if (do_write)\<close>.\<close>

definition write_buffer ::
  "tracer_config \<Rightarrow> tracer_state \<Rightarrow> nat \<Rightarrow> nat \<Rightarrow> tracer_state result" where
  "write_buffer C st header_size buf_ptr =
     (case entry_loop C buf_ptr st (buf_base (data st)) (buf_base (data st))
             (buf_base (data st) + header_size) of
        Inl e \<Rightarrow> Inl e
      | Inr (st1, pipe_start, pipe_end) \<Rightarrow>
          if op_offline C then
            (case write_trace_data C st1 pipe_start buf_ptr of
               Inl e \<Rightarrow> Inl e
             | Inr (st2, p) \<Rightarrow> Inr st2)
          else
            (case (if int buf_ptr - int pipe_start > get_atomic_write_size C
                   then atomic_pipe_write C st1 pipe_start pipe_end
                   else Inr (st1, pipe_start)) of
               Inl e \<Rightarrow> Inl e
             | Inr (st2, pipe_start1) \<Rightarrow>
                 if int buf_ptr - int pipe_start1 > int (buf_hdr_slots_size C) then
                   (case atomic_pipe_write C st2 pipe_start1 buf_ptr of
                      Inl e \<Rightarrow> Inl e
                    | Inr (st3, p) \<Rightarrow> Inr st3)
                 else Inr st2))"

text \<open>The size cap is in force: the condition under which \<^verbatim>\<open>do_write\<close> becomes false.\<close>

definition over_size_cap :: "tracer_state \<Rightarrow> bool \<Rightarrow> bool" where
  "over_size_cap st skip_size_cap \<longleftrightarrow>
     \<not> skip_size_cap \<and> op_max_trace_size st > 0 \<and>
     bytes_written (data st) > op_max_trace_size st"

text \<open>The else branch at the end of \<^verbatim>\<open>memtrace\<close>: zero the buffer, repaint the redzone.\<close>

definition clear_buffer :: "tracer_config \<Rightarrow> tracer_state \<Rightarrow> nat \<Rightarrow> tracer_state" where
  "clear_buffer C st buf_ptr =
     (let st1 = st\<lparr>memory := memset (memory st) (buf_base (data st)) 0 (trace_buf_size C)\<rparr>;
          redzone = buf_base (data st1) + trace_buf_size C
      in
        if buf_ptr > redzone
        then st1\<lparr>memory := memset (memory st1) redzone (- 1) (buf_ptr - redzone)\<rparr>
        else st1)"

definition memtrace :: "tracer_config \<Rightarrow> tracer_state \<Rightarrow> bool \<Rightarrow> tracer_state result" where
  "memtrace C st skip_size_cap =
     (let buf_ptr = BUF_PTR st in
      if buf_ptr = buf_base (data st) + buf_hdr_slots_size C then Inr st
      else
        (let (header_size, st1) =
               (if num_refs (data st) = 0 \<and> op_offline C
                then (init_header_size (data st), st)
                else (buf_hdr_slots_size C,
                      st\<lparr>memory :=
                           append_unit_header (instru C) (memory st) (buf_base (data st))
                             (dr_get_thread_id C)\<rparr>));
             pipe_start = buf_base (data st1);
             do_write = \<not> over_size_cap st1 skip_size_cap;
             st2 =
               (if do_write
                then st1\<lparr>data :=
                           (data st1)
                             \<lparr>bytes_written :=
                                bytes_written (data st1) +
                                word_of_int (int buf_ptr - int pipe_start)\<rparr>\<rparr>
                else st1)
         in
           case (if do_write then write_buffer C st2 header_size buf_ptr else Inr st2) of
             Inl e \<Rightarrow> Inl e
           | Inr st3 \<Rightarrow>
               (case (if do_write \<and> handoff_buf C \<noteq> None then create_buffer C st3
                      else Inr (clear_buffer C st3 buf_ptr)) of
                  Inl e \<Rightarrow> Inl e
                | Inr st4 \<Rightarrow>
                    Inr (st4\<lparr>BUF_PTR := buf_base (data st4) + buf_hdr_slots_size C\<rparr>))))"

subsection \<open>The threads of a process\<close>

text \<open>
  \<^verbatim>\<open>per_thread_t\<close> and the buffer pointer are kept once for each thread: the first is
  the TLS field of the drcontext of the thread, the second a raw TLS slot. Memory, the
  option \<^verbatim>\<open>max_trace_size\<close> (a global of the client, which \<^verbatim>\<open>create_buffer\<close> sets from
  whichever thread runs it), the pipe, the files and the allocator are those of the
  process. A thread is named by its id, which stands for its drcontext.
\<close>

record process_state =
  thread_data :: "nat \<Rightarrow> per_thread_t"
  thread_buf_ptr :: "nat \<Rightarrow> nat"
  proc_memory :: mem_t
  proc_max_trace_size :: "64 word"
  proc_io_log :: "io_event list"
  proc_alloc_results :: "nat list"

text \<open>
  The state on which a routine called with the drcontext of thread \<open>t\<close> works, and the
  process as the routine leaves it.
\<close>

definition thread_view :: "process_state \<Rightarrow> nat \<Rightarrow> tracer_state" where
  "thread_view P t =
     \<lparr>data = thread_data P t, memory = proc_memory P, BUF_PTR = thread_buf_ptr P t,
      op_max_trace_size = proc_max_trace_size P, io_log = proc_io_log P,
      alloc_results = proc_alloc_results P\<rparr>"

definition thread_return :: "process_state \<Rightarrow> nat \<Rightarrow> tracer_state \<Rightarrow> process_state" where
  "thread_return P t st =
     \<lparr>thread_data = (thread_data P)(t := data st),
      thread_buf_ptr = (thread_buf_ptr P)(t := BUF_PTR st),
      proc_memory = memory st, proc_max_trace_size = op_max_trace_size st,
      proc_io_log = io_log st, proc_alloc_results = alloc_results st\<rparr>"

text \<open>
  \<^verbatim>\<open>clean_call\<close>, run by thread \<open>t\<close>: \<^verbatim>\<open>memtrace(dr_get_current_drcontext(), false)\<close>.
\<close>

definition clean_call :: "tracer_config \<Rightarrow> process_state \<Rightarrow> nat \<Rightarrow> process_state result" where
  "clean_call C P t =
     (case memtrace (C\<lparr>dr_get_thread_id := t\<rparr>) (thread_view P t) False of
        Inl e \<Rightarrow> Inl e
      | Inr st \<Rightarrow> Inr (thread_return P t st))"

text \<open>
  Between two drains the instrumented code of a thread writes entries into memory and
  advances the buffer pointer of the thread. A run of the process is a list of such
  fills, each given by the memory and the buffer pointer it leaves, and of clean calls,
  of any of the threads in any order.
\<close>

datatype thread_event = Thread_fill nat mem_t nat | Thread_clean_call nat

definition fill :: "process_state \<Rightarrow> nat \<Rightarrow> mem_t \<Rightarrow> nat \<Rightarrow> process_state" where
  "fill P t m bp = P\<lparr>proc_memory := m, thread_buf_ptr := (thread_buf_ptr P)(t := bp)\<rparr>"

fun process_run ::
  "tracer_config \<Rightarrow> process_state \<Rightarrow> thread_event list \<Rightarrow> process_state result" where
  "process_run C P [] = Inr P"
| "process_run C P (Thread_fill t m bp # es) = process_run C (fill P t m bp) es"
| "process_run C P (Thread_clean_call t # es) =
     (case clean_call C P t of
        Inl e \<Rightarrow> Inl e
      | Inr P1 \<Rightarrow> process_run C P1 es)"

text \<open>The state in which a routine has left the process, returned or not.\<close>

definition final_state :: "tracer_state result \<Rightarrow> tracer_state" where
  "final_state r = (case r of Inl (f, st) \<Rightarrow> st | Inr st \<Rightarrow> st)"

definition process_log :: "process_state result \<Rightarrow> io_event list" where
  "process_log r = (case r of Inl (f, st) \<Rightarrow> io_log st | Inr P \<Rightarrow> proc_io_log P)"

text \<open>
  The bytes in the buffer of a thread, the header slot included, and what
  \<^verbatim>\<open>bytes_written\<close> of the thread is once a drain has added them.
\<close>

definition buffer_bytes :: "process_state \<Rightarrow> nat \<Rightarrow> int" where
  "buffer_bytes P t = int (thread_buf_ptr P t) - int (buf_base (thread_data P t))"

definition drained_total :: "process_state \<Rightarrow> nat \<Rightarrow> 64 word" where
  "drained_total P t = bytes_written (thread_data P t) + word_of_int (buffer_bytes P t)"

section \<open>Patterns and example states\<close>

text \<open>
  The rotate that \<^verbatim>\<open>match_valgrind_pattern\<close> expects at position \<open>i\<close> of the pattern;
  the same for an item of a block; and the operands every decoded rotate has.
\<close>

definition vg_rol :: "bool \<Rightarrow> nat \<Rightarrow> instr_t \<Rightarrow> bool" where
  "vg_rol x64 i r \<longleftrightarrow>
     opcode r = OP_rol \<and>
     instr_get_src r 0 = Some (OPND_IMMED (expected_rol_immeds x64 ! i)) \<and>
     instr_get_dst r 0 = Some (OPND_REG DR_REG_XDI)"

definition rol_ok :: "bool \<Rightarrow> nat \<Rightarrow> ilist_item \<Rightarrow> bool" where
  "rol_ok x64 i it = (case it of Instr r \<Rightarrow> vg_rol x64 i r | Clean_call c f a \<Rightarrow> False)"

definition rol_wf :: "ilist_item \<Rightarrow> bool" where
  "rol_wf it =
     (case it of
        Instr r \<Rightarrow> opcode r = OP_rol \<longrightarrow> srcs r \<noteq> [] \<and> dsts r \<noteq> []
      | Clean_call c f a \<Rightarrow> True)"

text \<open>Concrete states and instructions for the examples.\<close>

definition ex_mcontext :: dr_mcontext_t where
  "ex_mcontext = \<lparr>xax = 100, xcx = 0, xdx = 0, xbx = 77, xsp = 0, xbp = 0, xsi = 0, xdi = 0\<rparr>"

definition ex_annot_state :: annot_state where
  "ex_annot_state =
     \<lparr>handlers = [], lock_readers = 0, lock_writers = 0, vg_handlers = (\<lambda>i. None),
      mcontext = ex_mcontext, vg_calls = []\<rparr>"

definition ex_call_handler :: "nat \<Rightarrow> annotation_handler_t" where
  "ex_call_handler f =
     Annotation_handler ANNOT_HANDLER_CALL (Annotation_func f) (Callback 11) True 1
       (Some [OPND_REG DR_REG_XAX]) None"

definition ex_registry :: annot_state where
  "ex_registry =
     ex_annot_state
       \<lparr>handlers := [(4096, ex_call_handler 4096), (8192, ex_call_handler 8192),
                     (12288, ex_call_handler 12288)]\<rparr>"

definition ex_module :: module_data_t where
  "ex_module = \<lparr>module_handle = 1, module_start = 5376, module_end = 9472\<rparr>"

definition ex_host :: host_t where
  "ex_host =
     \<lparr>safe_read =
        (\<lambda>a. if a = 100 then Some \<lparr>request = 7, vg_args = [], default_result = 5\<rparr> else None),
      call_vg_callback = (\<lambda>p r. 42),
      dr_get_proc_address =
        (\<lambda>h s. if h = 1 \<and> s = ''dynamorio_annotate_running_on_dynamorio'' then 4194560 else 0),
      VG_USERREQ__MAKE_MEM_DEFINED_IF_ADDRESSABLE = 7,
      VG_ID__MAKE_MEM_DEFINED_IF_ADDRESSABLE = 0,
      VG_ID__LAST = 1\<rparr>"

definition ex_instr :: "opcode_t \<Rightarrow> opnd_t list \<Rightarrow> opnd_t list \<Rightarrow> nat \<Rightarrow> instr_t" where
  "ex_instr opc ss ds pc =
     \<lparr>opcode = opc, srcs = ss, dsts = ds, translation = pc, flags = {}, instr_note = None,
      ok_to_mangle = True\<rparr>"

definition ex_xchg :: instr_t where
  "ex_xchg =
     ex_instr OP_xchg [OPND_REG DR_REG_XBX, OPND_REG DR_REG_XBX]
       [OPND_REG DR_REG_XBX, OPND_REG DR_REG_XBX] 4198420"

definition ex_rol :: "int \<Rightarrow> instr_t" where
  "ex_rol v =
     ex_instr OP_rol [OPND_IMMED v, OPND_REG DR_REG_XDI] [OPND_REG DR_REG_XDI] 4198400"

definition ex_call :: "nat \<Rightarrow> instr_t" where
  "ex_call t = ex_instr OP_call [OPND_PC t] [] 4198400"

section \<open>Notions for the properties of the tracer\<close>

text \<open>
  What the writing part of a drain leaves alone: the data of the thread but for the
  count of references, the size cap, the allocations to come and the buffer pointer.
\<close>

definition write_frame :: "tracer_state \<Rightarrow> tracer_state \<Rightarrow> bool" where
  "write_frame st st' \<longleftrightarrow>
     (data st')\<lparr>num_refs := 0\<rparr> = (data st)\<lparr>num_refs := 0\<rparr> \<and>
     op_max_trace_size st' = op_max_trace_size st \<and>
     alloc_results st' = alloc_results st \<and> BUF_PTR st' = BUF_PTR st"

text \<open>
  The state in which a routine that returns a state and a value has left the
  process.
\<close>

definition state_of_pair :: "(tracer_state \<times> 'a) result \<Rightarrow> tracer_state" where
  "state_of_pair r = (case r of Inl (f, st) \<Rightarrow> st | Inr (st, x) \<Rightarrow> st)"

text \<open>
  What is asked of the strategy for the placement of the splits: storing an address
  in an entry does not change the type of that entry or of an entry behind it, and
  writing a header or a thread id does not change the type of an entry behind the one
  written.
\<close>

definition entry_types_stable :: "instru_t \<Rightarrow> bool" where
  "entry_types_stable I \<longleftrightarrow>
     (\<forall>m p a q. q = p \<or> p + sizeof_entry I \<le> q \<longrightarrow>
        get_entry_type I (set_entry_addr I m p a) q = get_entry_type I m q) \<and>
     (\<forall>m p t q. p + sizeof_entry I \<le> q \<longrightarrow>
        get_entry_type I (append_tid I m p t) q = get_entry_type I m q) \<and>
     (\<forall>m p t q. p + sizeof_entry I \<le> q \<longrightarrow>
        get_entry_type I (append_unit_header I m p t) q = get_entry_type I m q)"

text \<open>
  The entries of the buffer of a thread start behind the header slot, one entry size
  apart. A split point is the start of an instruction entry below the buffer pointer.
\<close>

definition on_grid :: "tracer_config \<Rightarrow> tracer_state \<Rightarrow> nat \<Rightarrow> bool" where
  "on_grid C st p \<longleftrightarrow>
     (\<exists>k. p = buf_base (data st) + buf_hdr_slots_size C + k * sizeof_entry (instru C))"

definition split_point :: "tracer_config \<Rightarrow> tracer_state \<Rightarrow> nat \<Rightarrow> bool" where
  "split_point C st p \<longleftrightarrow>
     on_grid C st p \<and> p < BUF_PTR st \<and>
     get_entry_type (instru C) (memory st) p = TRACE_TYPE_INSTR"

text \<open>
  The instruction entry that an entry of the buffer belongs to: the last instruction
  entry at or before it.
\<close>

definition instr_of :: "tracer_config \<Rightarrow> tracer_state \<Rightarrow> nat \<Rightarrow> nat \<Rightarrow> bool" where
  "instr_of C st q i \<longleftrightarrow>
     on_grid C st q \<and> on_grid C st i \<and> i \<le> q \<and>
     get_entry_type (instru C) (memory st) i = TRACE_TYPE_INSTR \<and>
     (\<forall>r. on_grid C st r \<and> i < r \<and> r \<le> q \<longrightarrow>
        get_entry_type (instru C) (memory st) r \<noteq> TRACE_TYPE_INSTR)"

text \<open>
  A run of pipe writes that carries the entries from \<open>p\<close> on, each entry once: every
  write starts one header slot before the first entry that has not been written yet,
  and carries more than the header slot. \<open>chain_end\<close> is the first entry that such a
  run has not written.
\<close>

fun write_chain :: "nat \<Rightarrow> nat \<Rightarrow> io_event list \<Rightarrow> bool" where
  "write_chain h p [] = True"
| "write_chain h p (Pipe_write s n # es) =
     (s + h = p \<and> int h < n \<and> write_chain h (s + nat n) es)"
| "write_chain h p (File_write f s n # es) = False"
| "write_chain h p (Handoff f s n k # es) = False"

fun chain_end :: "nat \<Rightarrow> nat \<Rightarrow> io_event list \<Rightarrow> nat option" where
  "chain_end h p [] = Some p"
| "chain_end h p (Pipe_write s n # es) =
     (if s + h = p \<and> int h < n then chain_end h (s + nat n) es else None)"
| "chain_end h p (File_write f s n # es) = None"
| "chain_end h p (Handoff f s n k # es) = None"

text \<open>
  A call to the pipe, the file or the handoff callback that is a pipe write of at most
  the atomic write size, which starts at the base of the buffer or one header slot
  before a split point, and ends at the buffer pointer or at a split point; a log that
  extends another by such calls; and the invariant of the loop over the entries.
\<close>

definition atomic_write :: "tracer_config \<Rightarrow> tracer_state \<Rightarrow> io_event \<Rightarrow> bool" where
  "atomic_write C st e =
     (case e of
        Pipe_write s n \<Rightarrow>
          n \<le> get_atomic_write_size C \<and>
          (s = buf_base (data st) \<or> split_point C st (s + buf_hdr_slots_size C)) \<and>
          (s + nat n = BUF_PTR st \<or> split_point C st (s + nat n))
      | File_write f s n \<Rightarrow> False
      | Handoff f s n k \<Rightarrow> False)"

definition logged :: "tracer_config \<Rightarrow> tracer_state \<Rightarrow> tracer_state \<Rightarrow> bool" where
  "logged C st0 st \<longleftrightarrow>
     (\<exists>new. io_log st = io_log st0 @ new \<and> list_all (atomic_write C st0) new)"

definition loop_inv ::
  "tracer_config \<Rightarrow> tracer_state \<Rightarrow> tracer_state \<Rightarrow> nat \<Rightarrow> nat \<Rightarrow> nat \<Rightarrow> bool" where
  "loop_inv C st0 st ps pe mr \<longleftrightarrow>
     logged C st0 st \<and>
     (ps = buf_base (data st0) \<or> split_point C st0 (ps + buf_hdr_slots_size C)) \<and>
     (pe = ps \<or> split_point C st0 pe) \<and> pe \<le> mr \<and> on_grid C st0 mr \<and>
     (\<forall>q. on_grid C st0 q \<and> mr \<le> q \<longrightarrow>
        get_entry_type (instru C) (memory st) q = get_entry_type (instru C) (memory st0) q)"

text \<open>
  A log that extends another by a chain of pipe writes of at most the atomic write
  size, from the first entry of the buffer at \<open>b\<close> on; and such a log whose chain has
  written the entries before the one behind the header slot at \<open>ps\<close>.
\<close>

definition sized_writes ::
  "tracer_config \<Rightarrow> nat \<Rightarrow> io_event list \<Rightarrow> tracer_state \<Rightarrow> bool" where
  "sized_writes C b old st \<longleftrightarrow>
     (\<exists>new. io_log st = old @ new \<and>
        list_all (\<lambda>e. \<exists>s n. e = Pipe_write s n \<and> n \<le> get_atomic_write_size C) new \<and>
        chain_end (buf_hdr_slots_size C) (b + buf_hdr_slots_size C) new \<noteq> None)"

definition sized_to ::
  "tracer_config \<Rightarrow> nat \<Rightarrow> io_event list \<Rightarrow> tracer_state \<Rightarrow> nat \<Rightarrow> bool" where
  "sized_to C b old st ps \<longleftrightarrow>
     (\<exists>new. io_log st = old @ new \<and>
        list_all (\<lambda>e. \<exists>s n. e = Pipe_write s n \<and> n \<le> get_atomic_write_size C) new \<and>
        chain_end (buf_hdr_slots_size C) (b + buf_hdr_slots_size C) new =
          Some (ps + buf_hdr_slots_size C))"

subsection \<open>Example states\<close>

text \<open>
  A small strategy with entries of two bytes, the type and the address; a thread with
  its buffer at 1000 and a reserve buffer, with two entries in the buffer.
\<close>

definition ex_entry_type :: "8 word \<Rightarrow> trace_type_t" where
  "ex_entry_type b =
     (if b = 0 then TRACE_TYPE_READ else if b = 1 then TRACE_TYPE_WRITE
      else if b = 10 then TRACE_TYPE_INSTR else if b = 11 then TRACE_TYPE_INSTR_BUNDLE
      else if b = 22 then TRACE_TYPE_THREAD else if b = 23 then TRACE_TYPE_THREAD_EXIT
      else if b = 24 then TRACE_TYPE_PID else TRACE_TYPE_OTHER (unat b))"

definition ex_instru :: instru_t where
  "ex_instru =
     \<lparr>sizeof_entry = 2,
      get_entry_type = (\<lambda>m p. ex_entry_type (m p)),
      get_entry_addr = (\<lambda>m p. unat (m (p + 1))),
      set_entry_addr = (\<lambda>m p a. m(p + 1 := of_nat a)),
      append_unit_header = (\<lambda>m p t. m(p := 22, p + 1 := of_nat t)),
      append_tid = (\<lambda>m p t. m(p := 22, p + 1 := of_nat t))\<rparr>"

definition ex_online :: tracer_config where
  "ex_online =
     \<lparr>instru = ex_instru, op_offline = False, op_use_physical = False, have_phys = False,
      virtual2physical = (\<lambda>v. 0), get_atomic_write_size = 8, handoff_buf = None,
      write_file = (\<lambda>f p n. n), ipc_pipe_write = (\<lambda>p n. n), dr_get_thread_id = 7\<rparr>"

definition ex_offline :: tracer_config where
  "ex_offline = ex_online\<lparr>op_offline := True, handoff_buf := Some (\<lambda>f p n k. True)\<rparr>"

definition ex_thread :: per_thread_t where
  "ex_thread =
     \<lparr>seg_base = 64, buf_base = 1000, num_refs = 5, bytes_written = 100, trace_file = 3,
      init_header_size = 2, num_buffers = 2, reserve_buf = 50000, l0_dcache = 0,
      l0_icache = 0\<rparr>"

definition ex_memory :: mem_t where
  "ex_memory = (\<lambda>a. 0)(1002 := 10, 1003 := 41, 1004 := 0, 1005 := 42)"

definition ex_capped :: tracer_state where
  "ex_capped =
     \<lparr>data = ex_thread, memory = ex_memory, BUF_PTR = 1006, op_max_trace_size = 10,
      io_log = [], alloc_results = []\<rparr>"

definition ex_drain :: tracer_state where
  "ex_drain = ex_capped\<lparr>op_max_trace_size := 0\<rparr>"


definition ex_split :: tracer_state where
  "ex_split =
     ex_drain
       \<lparr>memory := (\<lambda>a. 0)(1002 := 10, 1003 := 41, 1005 := 42, 1006 := 10, 1007 := 43,
                            1009 := 44, 1010 := 10, 1011 := 45, 1012 := 1, 1013 := 46),
        BUF_PTR := 1014\<rparr>"

definition ex_data_only :: tracer_state where
  "ex_data_only =
     ex_drain
       \<lparr>memory := (\<lambda>a. 0)(1003 := 41, 1005 := 42, 1007 := 43, 1009 := 44, 1011 := 45),
        BUF_PTR := 1012\<rparr>"

text \<open>
  A process of two threads, 7 and 8, each with two entries in its buffer and with a
  reserve buffer, in which no allocation succeeds any more.
\<close>

definition ex_thread2 :: per_thread_t where
  "ex_thread2 =
     ex_thread\<lparr>buf_base := 20000, bytes_written := 104, trace_file := 4,
               reserve_buf := 70000\<rparr>"

definition ex_process :: process_state where
  "ex_process =
     \<lparr>thread_data = (\<lambda>t. if t = 8 then ex_thread2 else ex_thread),
      thread_buf_ptr = (\<lambda>t. if t = 8 then 20006 else 1006),
      proc_memory = ex_memory, proc_max_trace_size = 0, proc_io_log = [],
      proc_alloc_results = []\<rparr>"

section \<open>Properties of the annotation handlers\<close>

subsection \<open>Locks and the table\<close>

lemma write_unlock_lock [simp]: "write_unlock (write_lock st) = st"
  by (simp add: write_unlock_def write_lock_def)

lemma read_unlock_lock [simp]: "read_unlock (read_lock st) = st"
  by (simp add: read_unlock_def read_lock_def)

lemma handlers_write_lock [simp]: "handlers (write_lock st) = handlers st"
  by (simp add: write_lock_def)

lemma handlers_read_lock [simp]: "handlers (read_lock st) = handlers st"
  by (simp add: read_lock_def)

lemma write_unlock_handlers_update:
  "write_unlock ((write_lock st)\<lparr>handlers := t\<rparr>) = st\<lparr>handlers := t\<rparr>"
  by (simp add: write_unlock_def write_lock_def)

lemma lookup_add_same:
  "generic_hash_lookup t k = None \<Longrightarrow> generic_hash_lookup (generic_hash_add t k h) k = Some h"
  by (simp add: generic_hash_lookup_def generic_hash_add_def map_add_Some_iff)

lemma map_of_filter_key:
  "map_of (filter (\<lambda>(k, h). P k) t) x = (if P x then map_of t x else None)"
  by (induction t) auto

subsection \<open>The module-unload sweep\<close>

text \<open>
  The loop keeps the entries before the cursor and, from the cursor on, exactly the
  entries whose key is not strictly between the bounds.
\<close>

lemma sweep_loop_filter:
  "sweep_loop lo hi t iter =
     take iter t @ filter (\<lambda>(k, h). \<not> (lo < k \<and> k < hi)) (drop iter t)"
proof (induction lo hi t iter rule: sweep_loop.induct)
  case (1 lo hi t iter)
  show ?case
  proof (cases "iter < length t")
    case False
    then show ?thesis
      by (subst sweep_loop.simps) (simp add: generic_hash_iterate_next_def)
  next
    case True
    obtain k h where kh: "t ! iter = (k, h)" by (cases "t ! iter")
    from True have dr: "drop iter t = (k, h) # drop (Suc iter) t"
      by (simp add: kh [symmetric] Cons_nth_drop_Suc)
    from True have nx: "generic_hash_iterate_next t iter = Some (Suc iter, k, h)"
      by (simp add: generic_hash_iterate_next_def kh)
    show ?thesis
    proof (cases "lo < k \<and> k < hi")
      case inside: True
      have rm: "generic_hash_iterate_remove t (Suc iter) k =
                  (take iter t @ drop (Suc iter) t, iter)"
        by (simp add: generic_hash_iterate_remove_def)
      from inside have "sweep_loop lo hi t iter =
              sweep_loop lo hi (take iter t @ drop (Suc iter) t) iter"
        by (subst sweep_loop.simps) (simp add: nx rm)
      also have "\<dots> = take iter (take iter t @ drop (Suc iter) t) @
            filter (\<lambda>(k, h). \<not> (lo < k \<and> k < hi))
              (drop iter (take iter t @ drop (Suc iter) t))"
        using inside by (intro "1.IH"(1) [OF nx refl refl _ rm [symmetric]]) simp
      also have "\<dots> = take iter t @
            filter (\<lambda>(k, h). \<not> (lo < k \<and> k < hi)) (drop (Suc iter) t)"
        using True by (simp add: min_def)
      finally show ?thesis using inside by (simp add: dr)
    next
      case outside: False
      from outside have "sweep_loop lo hi t iter = sweep_loop lo hi t (Suc iter)"
        by (subst sweep_loop.simps) (auto simp add: nx)
      also have "\<dots> = take (Suc iter) t @
            filter (\<lambda>(k, h). \<not> (lo < k \<and> k < hi)) (drop (Suc iter) t)"
        using outside by (intro "1.IH"(2) [OF nx refl refl]) auto
      finally show ?thesis
        using outside True by (simp add: dr take_Suc_conv_app_nth kh)
    qed
  qed
qed

text \<open>
  Claim C2. For every registry state and every module range, after
  \<^verbatim>\<open>event_module_unload\<close> no key strictly between \<^verbatim>\<open>info->start\<close> and
  \<^verbatim>\<open>info->end\<close> is found by a lookup, and the lookup of every other key gives what it
  gave before the sweep.
\<close>

theorem unload_sweep:
  "(module_start info < k \<and> k < module_end info \<longrightarrow>
      generic_hash_lookup (handlers (event_module_unload st info)) k = None) \<and>
   (\<not> (module_start info < k \<and> k < module_end info) \<longrightarrow>
      generic_hash_lookup (handlers (event_module_unload st info)) k =
      generic_hash_lookup (handlers st) k)"
  by (simp add: event_module_unload_def Let_def write_unlock_handlers_update
        sweep_loop_filter generic_hash_lookup_def map_of_filter_key)

text \<open>
  The scenario of the spec: handlers at 0x1000, 0x2000 and 0x3000, a module that covers
  0x1500 to 0x2500.
\<close>

theorem unload_sweep_witness:
  "generic_hash_lookup (handlers (event_module_unload ex_registry ex_module)) 8192 = None \<and>
   generic_hash_lookup (handlers (event_module_unload ex_registry ex_module)) 4096 =
     Some (ex_call_handler 4096) \<and>
   generic_hash_lookup (handlers (event_module_unload ex_registry ex_module)) 12288 =
     Some (ex_call_handler 12288)"
proof -
  have a: "module_start ex_module < 8192 \<and> 8192 < module_end ex_module"
    and b: "\<not> (module_start ex_module < 4096 \<and> 4096 < module_end ex_module)"
    and c: "\<not> (module_start ex_module < 12288 \<and> 12288 < module_end ex_module)"
    by (simp_all add: ex_module_def)
  have d: "generic_hash_lookup (handlers ex_registry) 4096 = Some (ex_call_handler 4096)"
    and e: "generic_hash_lookup (handlers ex_registry) 12288 = Some (ex_call_handler 12288)"
    by (simp_all add: ex_registry_def generic_hash_lookup_def)
  from a b c d e unload_sweep [of ex_module 8192 ex_registry]
    unload_sweep [of ex_module 4096 ex_registry] unload_sweep [of ex_module 12288 ex_registry]
  show ?thesis by metis
qed

subsection \<open>Registration\<close>

lemma register_call_duplicate:
  "generic_hash_lookup (handlers st) f \<noteq> None \<Longrightarrow>
   annot_register_call st f cb fp n ap = Inr st"
  by (auto simp: annot_register_call_def KEY_def Let_def)

lemma register_call_first:
  assumes "generic_hash_lookup (handlers st) f = None"
    and "annot_register_call st f cb fp n ap = Inr st1"
  shows "generic_hash_lookup (handlers st1) f =
           Some (Annotation_handler ANNOT_HANDLER_CALL (Annotation_func f) (Callback cb) fp n
                   (if n = 0 then None else Some (take n ap)) None)"
  using assms
  by (auto simp: annot_register_call_def KEY_def Let_def convert_va_list_to_opnd_def
        write_unlock_handlers_update lookup_add_same split: if_splits)

lemma register_call_registered:
  assumes "annot_register_call st f cb fp n ap = Inr st1"
  shows "generic_hash_lookup (handlers st1) f \<noteq> None"
proof (cases "generic_hash_lookup (handlers st) f")
  case None
  from register_call_first [OF None assms] show ?thesis by simp
next
  case (Some h)
  then have "annot_register_call st f cb fp n ap = Inr st"
    by (intro register_call_duplicate) simp
  with assms Some show ?thesis by simp
qed

lemma register_calls_duplicate:
  "generic_hash_lookup (handlers st) f \<noteq> None \<Longrightarrow> register_calls st f later = Inr st"
  by (induction later) (auto simp: register_call_duplicate)

text \<open>
  Claim C3. Once \<^verbatim>\<open>annot_register_call\<close> has returned for an annotation function
  \<open>f\<close>, any run of later registrations for the same \<open>f\<close> leaves the whole state as
  it is; and when \<open>f\<close> had no handler before, the handler found for \<open>f\<close> holds
  the callback, the floating-point flag and the arguments of that first call.
\<close>

theorem registration_idempotence:
  assumes "annot_register_call st f cb fp n ap = Inr st1"
  shows "register_calls st1 f later = Inr st1 \<and>
         (generic_hash_lookup (handlers st) f = None \<longrightarrow>
          generic_hash_lookup (handlers st1) f =
            Some (Annotation_handler ANNOT_HANDLER_CALL (Annotation_func f) (Callback cb) fp n
                    (if n = 0 then None else Some (take n ap)) None))"
  using register_calls_duplicate [OF register_call_registered [OF assms]]
    register_call_first [OF _ assms]
  by blast

theorem registration_idempotence_witness:
  "annot_register_call ex_annot_state 4194560 11 True 1 [OPND_REG DR_REG_XAX] =
     Inr (ex_annot_state\<lparr>handlers := [(4194560, ex_call_handler 4194560)]\<rparr>) \<and>
   register_calls (ex_annot_state\<lparr>handlers := [(4194560, ex_call_handler 4194560)]\<rparr>)
     4194560 [(22, False, 0, []), (33, True, 2, [OPND_REG DR_REG_XCX, OPND_IMMED 5])] =
     Inr (ex_annot_state\<lparr>handlers := [(4194560, ex_call_handler 4194560)]\<rparr>) \<and>
   generic_hash_lookup
     (handlers (ex_annot_state\<lparr>handlers := [(4194560, ex_call_handler 4194560)]\<rparr>)) 4194560 =
     Some (ex_call_handler 4194560)"
proof -
  have h: "annot_register_call ex_annot_state 4194560 11 True 1 [OPND_REG DR_REG_XAX] =
     Inr (ex_annot_state\<lparr>handlers := [(4194560, ex_call_handler 4194560)]\<rparr>)"
    by (simp add: annot_register_call_def ex_annot_state_def Let_def generic_hash_lookup_def
          generic_hash_add_def KEY_def convert_va_list_to_opnd_def ex_call_handler_def
          write_lock_def write_unlock_def)
  have n: "generic_hash_lookup (handlers ex_annot_state) 4194560 = None"
    by (simp add: ex_annot_state_def generic_hash_lookup_def)
  note t = registration_idempotence [OF h,
      of "[(22, False, 0, []), (33, True, 2, [OPND_REG DR_REG_XCX, OPND_IMMED 5])]"]
  from conjunct2 [OF t] n
  have l: "generic_hash_lookup
     (handlers (ex_annot_state\<lparr>handlers := [(4194560, ex_call_handler 4194560)]\<rparr>)) 4194560 =
     Some (ex_call_handler 4194560)"
    by (simp add: ex_call_handler_def)
  from h conjunct1 [OF t] l show ?thesis by blast
qed

subsection \<open>The Valgrind dispatcher\<close>

text \<open>
  Claim C4. When the safe read of the request block fails, \<^verbatim>\<open>handle_vg_annotation\<close>
  returns the state it was given: no callback has been called and the register xbx
  of the thread holds what it held.
\<close>

theorem safe_read_failure:
  assumes "safe_read H request_args = None"
  shows "handle_vg_annotation H st request_args = st \<and>
         vg_calls (handle_vg_annotation H st request_args) = vg_calls st \<and>
         xbx (mcontext (handle_vg_annotation H st request_args)) = xbx (mcontext st)"
  using assms by (simp add: handle_vg_annotation_def)

theorem safe_read_failure_witness:
  "safe_read ex_host 200 = None \<and>
   handle_vg_annotation ex_host ex_annot_state 200 = ex_annot_state \<and>
   xbx (mcontext (handle_vg_annotation ex_host ex_annot_state 200)) = 77"
proof -
  have h: "safe_read ex_host 200 = None" by (simp add: ex_host_def)
  have "xbx (mcontext ex_annot_state) = 77" by (simp add: ex_annot_state_def ex_mcontext_def)
  with h safe_read_failure [OF h, of ex_annot_state] show ?thesis by simp
qed

text \<open>
  When the read succeeds the register is written: with the default result of the block
  when no handler is registered, with the value of the callback otherwise.
\<close>

lemma safe_read_success_example:
  "xbx (mcontext (handle_vg_annotation ex_host ex_annot_state 100)) = 5 \<and>
   xbx (mcontext
          (handle_vg_annotation ex_host (annot_register_valgrind ex_host ex_annot_state 0 900)
             100)) = 42 \<and>
   vg_calls (handle_vg_annotation ex_host (annot_register_valgrind ex_host ex_annot_state 0 900)
               100) = [(900, \<lparr>request = 7, vg_args = [], default_result = 5\<rparr>)]"
  by (simp add: handle_vg_annotation_def ex_host_def ex_annot_state_def
        lookup_valgrind_request_def read_lock_def read_unlock_def annot_register_valgrind_def
        write_lock_def write_unlock_def Let_def)

subsection \<open>Module load\<close>

lemma register_return_lookup:
  "generic_hash_lookup (handlers (annot_register_return st f v)) f =
     (case generic_hash_lookup (handlers st) f of
        None \<Rightarrow> Some (Annotation_handler ANNOT_HANDLER_RETURN_VALUE (Annotation_func f)
                        (Return_value v) False 0 None None)
      | Some h \<Rightarrow> Some h)"
  by (simp add: annot_register_return_def KEY_def Let_def write_unlock_handlers_update
        lookup_add_same split: option.splits)

text \<open>
  Claim C9. When the loaded module exports \<^verbatim>\<open>dynamorio_annotate_running_on_dynamorio\<close>,
  \<^verbatim>\<open>event_module_load\<close> is the registration of a return-value handler with the value
  \<^verbatim>\<open>true\<close> for the address of that symbol; afterwards a lookup of that address finds a
  handler, and in a registry that had none for it, this return-value handler.
\<close>

theorem module_load_registers_return:
  assumes "dr_get_proc_address H (module_handle info)
             ''dynamorio_annotate_running_on_dynamorio'' = target"
    and "target \<noteq> 0"
  shows "event_module_load H st info loaded = annot_register_return st target 1 \<and>
         generic_hash_lookup (handlers (event_module_load H st info loaded)) target \<noteq> None \<and>
         (generic_hash_lookup (handlers st) target = None \<longrightarrow>
          generic_hash_lookup (handlers (event_module_load H st info loaded)) target =
            Some (Annotation_handler ANNOT_HANDLER_RETURN_VALUE (Annotation_func target)
                    (Return_value 1) False 0 None None))"
proof -
  have e: "event_module_load H st info loaded = annot_register_return st target 1"
    using assms by (simp add: event_module_load_def Let_def)
  show ?thesis
    unfolding e by (simp add: register_return_lookup split: option.splits)
qed

theorem module_load_registers_return_witness:
  "dr_get_proc_address ex_host (module_handle ex_module)
     ''dynamorio_annotate_running_on_dynamorio'' = 4194560 \<and>
   (4194560::nat) \<noteq> 0 \<and>
   generic_hash_lookup (handlers (event_module_load ex_host ex_annot_state ex_module True))
     4194560 =
     Some (Annotation_handler ANNOT_HANDLER_RETURN_VALUE (Annotation_func 4194560)
             (Return_value 1) False 0 None None)"
proof -
  have h: "dr_get_proc_address ex_host (module_handle ex_module)
             ''dynamorio_annotate_running_on_dynamorio'' = 4194560"
    by (simp add: ex_host_def ex_module_def)
  have n: "generic_hash_lookup (handlers ex_annot_state) 4194560 = None"
    by (simp add: ex_annot_state_def generic_hash_lookup_def)
  have nz: "(4194560::nat) \<noteq> 0" by simp
  from module_load_registers_return [OF h nz, of ex_annot_state True] n h nz
  show ?thesis by blast
qed

subsection \<open>The annotation matcher\<close>

text \<open>
  Claim C10. For an instruction that is not a direct call, and for a direct call whose
  target has no handler, \<^verbatim>\<open>annot_match\<close> returns \<^verbatim>\<open>NULL\<close> (the empty chain) and
  leaves the state, with the registry and its lock, and the instruction as they were.
\<close>

theorem annot_match_absent:
  "(\<not> instr_is_call_direct instr \<longrightarrow> annot_match st instr = Inr (st, instr, [])) \<and>
   (instr_is_call_direct instr \<and> instr_get_branch_target_pc instr = Some target \<and>
    generic_hash_lookup (handlers st) target = None \<longrightarrow>
      annot_match st instr = Inr (st, instr, []))"
  by (simp add: annot_match_def Let_def)

theorem annot_match_absent_witness:
  "\<not> instr_is_call_direct (ex_rol 3) \<and>
   annot_match ex_registry (ex_rol 3) = Inr (ex_registry, ex_rol 3, []) \<and>
   instr_is_call_direct (ex_call 20480) \<and>
   instr_get_branch_target_pc (ex_call 20480) = Some 20480 \<and>
   generic_hash_lookup (handlers ex_registry) 20480 = None \<and>
   annot_match ex_registry (ex_call 20480) = Inr (ex_registry, ex_call 20480, [])"
proof -
  have a: "\<not> instr_is_call_direct (ex_rol 3)"
    by (simp add: instr_is_call_direct_def ex_rol_def ex_instr_def)
  have b: "instr_is_call_direct (ex_call 20480)"
    by (simp add: instr_is_call_direct_def ex_call_def ex_instr_def)
  have c: "instr_get_branch_target_pc (ex_call 20480) = Some 20480"
    by (simp add: instr_get_branch_target_pc_def instr_get_src_def ex_call_def ex_instr_def)
  have d: "generic_hash_lookup (handlers ex_registry) 20480 = None"
    by (simp add: ex_registry_def generic_hash_lookup_def)
  from a b c d annot_match_absent [of "ex_rol 3" ex_registry 20480]
    annot_match_absent [of "ex_call 20480" ex_registry 20480]
  show ?thesis by blast
qed

text \<open>
  A direct call to a registered address gives one label that carries the handler.
\<close>

lemma annot_match_present_example:
  "annot_match ex_registry (ex_call 8192) =
     Inr (ex_registry, ex_call 8192,
          [\<lparr>opcode = OP_LABEL, srcs = [], dsts = [], translation = 0,
            flags = {INSTR_ANNOTATION}, instr_note = Some (ex_call_handler 8192),
            ok_to_mangle = False\<rparr>])"
  by (simp add: annot_match_def instr_is_call_direct_def instr_get_branch_target_pc_def
        instr_get_src_def ex_call_def ex_instr_def ex_registry_def generic_hash_lookup_def
        ex_call_handler_def INSTR_CREATE_label_def Let_def read_lock_def read_unlock_def)

subsection \<open>The Valgrind pattern\<close>

lemma opnd_get_immed_int_Some [simp]:
  "opnd_get_immed_int src = Some v \<longleftrightarrow> src = OPND_IMMED v"
  by (cases src) auto

lemma rol_loop_step:
  "p < length bb \<Longrightarrow> bb ! p = Instr r \<Longrightarrow> vg_rol x64 i r \<Longrightarrow>
   rol_loop x64 bb (Suc i) (Some p) = rol_loop x64 bb i (instr_get_prev p)"
  by (simp add: vg_rol_def opnd_same_def opnd_create_reg_def)

lemma rol_loop_tail:
  assumes "vg_rol x64 0 r0" "vg_rol x64 1 r1" "vg_rol x64 2 r2" "vg_rol x64 3 r3"
  shows "rol_loop x64 (pre @ [Instr r0, Instr r1, Instr r2, Instr r3]) 4
           (Some (length pre + 3)) = Inr True"
proof -
  let ?bb = "pre @ [Instr r0, Instr r1, Instr r2, Instr r3]"
  have "rol_loop x64 ?bb (Suc 3) (Some (length pre + 3)) =
        rol_loop x64 ?bb 3 (Some (length pre + 2))"
    using assms(4) by (subst rol_loop_step [where r = r3]) (simp_all add: nth_append instr_get_prev_def)
  also have "\<dots> = rol_loop x64 ?bb (Suc 2) (Some (length pre + 2))" by (simp add: eval_nat_numeral)
  also have "\<dots> = rol_loop x64 ?bb 2 (Some (length pre + 1))"
    using assms(3) by (subst rol_loop_step [where r = r2]) (simp_all add: nth_append instr_get_prev_def)
  also have "\<dots> = rol_loop x64 ?bb (Suc 1) (Some (length pre + 1))" by (simp add: eval_nat_numeral)
  also have "\<dots> = rol_loop x64 ?bb 1 (Some (length pre))"
    using assms(2) by (subst rol_loop_step [where r = r1]) (simp_all add: nth_append instr_get_prev_def)
  also have "\<dots> = rol_loop x64 ?bb (Suc 0) (Some (length pre))" by simp
  also have "\<dots> = rol_loop x64 ?bb 0 (instr_get_prev (length pre))"
    using assms(1) by (subst rol_loop_step [where r = r0]) (simp_all add: nth_append)
  finally show ?thesis by (simp add: eval_nat_numeral)
qed

lemma remove_loop_tail:
  "remove_loop 4 (pre @ [a, b, c, d]) (Some (length pre + 3)) ds =
     Inr (pre, ds @ [d, c, b, a])"
proof -
  have s: "remove_loop (Suc n) bb (Some p) ds =
        remove_loop n (instrlist_remove bb p) (instr_get_prev p) (ds @ [bb ! p])" for n bb p ds
    by simp
  have "remove_loop (Suc (Suc (Suc (Suc 0)))) (pre @ [a, b, c, d]) (Some (length pre + 3)) ds =
        remove_loop (Suc (Suc (Suc 0))) (pre @ [a, b, c]) (Some (length pre + 2)) (ds @ [d])"
    by (subst s) (simp add: instrlist_remove_def instr_get_prev_def nth_append)
  also have "\<dots> = remove_loop (Suc (Suc 0)) (pre @ [a, b]) (Some (length pre + 1)) (ds @ [d, c])"
    by (subst s) (simp add: instrlist_remove_def instr_get_prev_def nth_append)
  also have "\<dots> = remove_loop (Suc 0) (pre @ [a]) (Some (length pre)) (ds @ [d, c, b])"
    by (subst s) (simp add: instrlist_remove_def instr_get_prev_def nth_append)
  also have "\<dots> = Inr (pre, ds @ [d, c, b, a])"
    by (subst s) (simp add: instrlist_remove_def instr_get_prev_def nth_append)
  finally show ?thesis by (simp add: eval_nat_numeral)
qed

lemma instrlist_last_tail:
  "instrlist_last (pre @ [a, b, c, d]) = Some (length pre + 3)"
  by (simp add: instrlist_last_def)

lemma instrlist_last_nil: "instrlist_last [] = None"
  by (simp add: instrlist_last_def)

lemma rol_loop_null: "0 < n \<Longrightarrow> rol_loop x64 bb n None = Inl NULL_DEREF"
  by (cases n) simp_all

text \<open>
  A block that ends with the four rotates, before an exchange of xbx with itself:
  the matcher returns true, the exchange and the rotates are destroyed, and the block
  ends with the xor of xbx, translated to the pc of the exchange, and the clean call
  of \<^verbatim>\<open>handle_vg_annotation\<close> with xax.
\<close>

lemma valgrind_pattern_match:
  assumes "instr_get_src instr 0 = Some (OPND_REG DR_REG_XBX)"
    and "instr_get_dst instr 0 = Some (OPND_REG DR_REG_XBX)"
    and "vg_rol x64 0 r0" "vg_rol x64 1 r1" "vg_rol x64 2 r2" "vg_rol x64 3 r3"
  shows "match_valgrind_pattern x64 (pre @ [Instr r0, Instr r1, Instr r2, Instr r3]) instr =
           Inr (True,
                pre @ [Instr (INSTR_XL8 (INSTR_CREATE_xor (OPND_REG DR_REG_XBX)
                                           (OPND_REG DR_REG_XBX))
                                (instr_get_app_pc instr)),
                       Clean_call Handle_vg_annotation False [OPND_REG DR_REG_XAX]],
                [Instr instr, Instr r3, Instr r2, Instr r1, Instr r0])"
  unfolding match_valgrind_pattern_def VALGRIND_ANNOTATION_ROL_COUNT_def instrlist_last_tail
    rol_loop_tail [OF assms(3-6)] remove_loop_tail
  using assms(1,2)
  by (simp add: opnd_same_def opnd_create_reg_def Let_def dr_insert_clean_call_def
        instrlist_append_def)

text \<open>
  A block of at least four instructions without the pattern: the matcher returns false
  and the block is as it was.
\<close>

lemma rol_loop_mismatch:
  assumes "rol_wf (bb ! p)" and "\<not> rol_ok x64 i (bb ! p)"
  shows "rol_loop x64 bb (Suc i) (Some p) = Inr False"
proof (cases "bb ! p")
  case (Clean_call c f a)
  then show ?thesis by simp
next
  case (Instr w)
  show ?thesis
  proof (cases "opcode w = OP_rol")
    case False
    with Instr show ?thesis by simp
  next
    case True
    with assms Instr have ne: "srcs w \<noteq> []" "dsts w \<noteq> []"
      by (simp_all add: rol_wf_def)
    then have g: "instr_get_src w 0 = Some (srcs w ! 0)" "instr_get_dst w 0 = Some (dsts w ! 0)"
      by (simp_all add: instr_get_src_def instr_get_dst_def)
    from assms(2) Instr True g
    have "srcs w ! 0 \<noteq> OPND_IMMED (expected_rol_immeds x64 ! i) \<or>
          dsts w ! 0 \<noteq> OPND_REG DR_REG_XDI"
      by (auto simp: rol_ok_def vg_rol_def)
    with Instr True g show ?thesis
      by (auto simp: opnd_same_def opnd_create_reg_def split: opnd_t.splits)
  qed
qed

lemma rol_loop_char:
  assumes "\<forall>it \<in> set bb. rol_wf it"
  shows "p < length bb \<Longrightarrow> n \<le> Suc p \<Longrightarrow>
         rol_loop x64 bb n (Some p) = Inr (\<forall>j<n. rol_ok x64 j (bb ! (Suc p - n + j)))"
proof (induction n arbitrary: p)
  case 0
  then show ?case by simp
next
  case (Suc i)
  from Suc.prems assms have wf: "rol_wf (bb ! p)" by simp
  show ?case
  proof (cases "rol_ok x64 i (bb ! p)")
    case False
    from Suc.prems have "Suc p - Suc i + i = p" by simp
    with False have "\<not> (\<forall>j<Suc i. rol_ok x64 j (bb ! (Suc p - Suc i + j)))"
      by (metis lessI)
    with rol_loop_mismatch [OF wf False] show ?thesis by simp
  next
    case True
    then obtain r where r: "bb ! p = Instr r" "vg_rol x64 i r"
      by (auto simp: rol_ok_def split: ilist_item.splits)
    have step: "rol_loop x64 bb (Suc i) (Some p) = rol_loop x64 bb i (instr_get_prev p)"
      using Suc.prems r by (intro rol_loop_step)
    have split_all: "(\<forall>j<Suc i. rol_ok x64 j (bb ! (Suc p - Suc i + j))) \<longleftrightarrow>
                     (\<forall>j<i. rol_ok x64 j (bb ! (p - i + j)))"
      using True Suc.prems by (auto simp: less_Suc_eq)
    show ?thesis
    proof (cases i)
      case 0
      with step split_all show ?thesis by simp
    next
      case (Suc i')
      with Suc.prems have p: "0 < p" "p - 1 < length bb" "i \<le> Suc (p - 1)" by simp_all
      from p(1) have prev: "instr_get_prev p = Some (p - 1)" by (simp add: instr_get_prev_def)
      from p(1) have idx: "Suc (p - 1) - i + j = p - i + j" for j by simp
      show ?thesis
        unfolding step prev Suc.IH [OF p(2,3)] split_all idx ..
    qed
  qed
qed

lemma valgrind_pattern_no_match:
  assumes wf: "\<forall>it \<in> set bb. rol_wf it"
    and ops: "instr_get_src instr 0 = Some s" "instr_get_dst instr 0 = Some d"
    and len: "4 \<le> length bb"
    and no: "\<not> (s = OPND_REG DR_REG_XBX \<and> d = OPND_REG DR_REG_XBX \<and>
                (\<forall>j<4. rol_ok x64 j (bb ! (length bb - 4 + j))))"
  shows "match_valgrind_pattern x64 bb instr = Inr (False, bb, [])"
proof (cases "s = OPND_REG DR_REG_XBX \<and> d = OPND_REG DR_REG_XBX")
  case False
  with ops show ?thesis
    by (auto simp: match_valgrind_pattern_def opnd_same_def opnd_create_reg_def Let_def)
next
  case True
  from len have last: "instrlist_last bb = Some (length bb - 1)"
    by (auto simp: instrlist_last_def)
  from len have "rol_loop x64 bb 4 (Some (length bb - 1)) =
        Inr (\<forall>j<4. rol_ok x64 j (bb ! (Suc (length bb - 1) - 4 + j)))"
    by (intro rol_loop_char [OF wf]) simp_all
  moreover from len have "Suc (length bb - 1) - 4 + j = length bb - 4 + j" for j by simp
  ultimately have "rol_loop x64 bb 4 (Some (length bb - 1)) = Inr False"
    using no True by simp
  with ops True last show ?thesis
    by (simp add: match_valgrind_pattern_def opnd_same_def opnd_create_reg_def Let_def
          VALGRIND_ANNOTATION_ROL_COUNT_def)
qed

text \<open>
  The scenarios of the spec: the x86 immediates match on x86 and not on x64.
\<close>

lemma valgrind_pattern_examples:
  "match_valgrind_pattern False
     [Instr (ex_rol 3), Instr (ex_rol 13), Instr (ex_rol 29), Instr (ex_rol 19)] ex_xchg =
     Inr (True,
          [Instr (ex_instr OP_xor [OPND_REG DR_REG_XBX, OPND_REG DR_REG_XBX]
                    [OPND_REG DR_REG_XBX] 4198420),
           Clean_call Handle_vg_annotation False [OPND_REG DR_REG_XAX]],
          [Instr ex_xchg, Instr (ex_rol 19), Instr (ex_rol 29), Instr (ex_rol 13),
           Instr (ex_rol 3)])"
  "match_valgrind_pattern True
     [Instr (ex_rol 3), Instr (ex_rol 13), Instr (ex_rol 29), Instr (ex_rol 19)] ex_xchg =
     Inr (False,
          [Instr (ex_rol 3), Instr (ex_rol 13), Instr (ex_rol 29), Instr (ex_rol 19)], [])"
proof -
  have x: "instr_get_src ex_xchg 0 = Some (OPND_REG DR_REG_XBX)"
    "instr_get_dst ex_xchg 0 = Some (OPND_REG DR_REG_XBX)"
    by (simp_all add: ex_xchg_def ex_instr_def instr_get_src_def instr_get_dst_def)
  have r: "vg_rol False 0 (ex_rol 3)" "vg_rol False 1 (ex_rol 13)" "vg_rol False 2 (ex_rol 29)"
    "vg_rol False 3 (ex_rol 19)"
    by (simp_all add: vg_rol_def ex_rol_def ex_instr_def instr_get_src_def instr_get_dst_def
          expected_rol_immeds_def)
  from valgrind_pattern_match [OF x r, of "[]"]
  show "match_valgrind_pattern False
     [Instr (ex_rol 3), Instr (ex_rol 13), Instr (ex_rol 29), Instr (ex_rol 19)] ex_xchg =
     Inr (True,
          [Instr (ex_instr OP_xor [OPND_REG DR_REG_XBX, OPND_REG DR_REG_XBX]
                    [OPND_REG DR_REG_XBX] 4198420),
           Clean_call Handle_vg_annotation False [OPND_REG DR_REG_XAX]],
          [Instr ex_xchg, Instr (ex_rol 19), Instr (ex_rol 29), Instr (ex_rol 13),
           Instr (ex_rol 3)])"
    by (simp add: INSTR_XL8_def INSTR_CREATE_xor_def ex_instr_def instr_get_app_pc_def
          ex_xchg_def)
  have "\<not> rol_ok True 3 (Instr (ex_rol 19))"
    by (simp add: rol_ok_def vg_rol_def ex_rol_def ex_instr_def instr_get_src_def
          expected_rol_immeds_def)
  then have "\<not> (\<forall>j<4. rol_ok True j
           ([Instr (ex_rol 3), Instr (ex_rol 13), Instr (ex_rol 29), Instr (ex_rol 19)] !
            (length [Instr (ex_rol 3), Instr (ex_rol 13), Instr (ex_rol 29), Instr (ex_rol 19)]
               - 4 + j)))"
    by (auto intro!: exI [of _ 3])
  then show "match_valgrind_pattern True
     [Instr (ex_rol 3), Instr (ex_rol 13), Instr (ex_rol 29), Instr (ex_rol 19)] ex_xchg =
     Inr (False,
          [Instr (ex_rol 3), Instr (ex_rol 13), Instr (ex_rol 29), Instr (ex_rol 19)], [])"
    by (intro valgrind_pattern_no_match [OF _ x])
       (simp_all add: rol_wf_def ex_rol_def ex_instr_def)
qed

lemma rol_loop_short_example:
  "rol_loop False [Instr (ex_rol 13), Instr (ex_rol 29), Instr (ex_rol 19)] 4
     (instrlist_last [Instr (ex_rol 13), Instr (ex_rol 29), Instr (ex_rol 19)]) =
     Inl NULL_DEREF"
proof -
  let ?bb = "[Instr (ex_rol 13), Instr (ex_rol 29), Instr (ex_rol 19)]"
  have r: "vg_rol False 1 (ex_rol 13)" "vg_rol False 2 (ex_rol 29)" "vg_rol False 3 (ex_rol 19)"
    by (simp_all add: vg_rol_def ex_rol_def ex_instr_def instr_get_src_def instr_get_dst_def
          expected_rol_immeds_def)
  have l: "instrlist_last ?bb = Some 2" by (simp add: instrlist_last_def)
  have "rol_loop False ?bb (Suc 3) (Some 2) = rol_loop False ?bb 3 (Some 1)"
    using r(3) by (subst rol_loop_step [where r = "ex_rol 19"]) (simp_all add: instr_get_prev_def)
  also have "\<dots> = rol_loop False ?bb (Suc 2) (Some 1)" by (simp add: numeral_3_eq_3)
  also have "\<dots> = rol_loop False ?bb 2 (Some 0)"
    using r(2) by (subst rol_loop_step [where r = "ex_rol 29"]) (simp_all add: instr_get_prev_def)
  also have "\<dots> = rol_loop False ?bb (Suc 1) (Some 0)" by (simp add: numeral_2_eq_2)
  also have "\<dots> = rol_loop False ?bb 1 None"
    using r(1) by (subst rol_loop_step [where r = "ex_rol 13"]) (simp_all add: instr_get_prev_def)
  also have "\<dots> = Inl NULL_DEREF" by (simp add: rol_loop_null)
  finally show ?thesis unfolding l by simp
qed

text \<open>
  Claim C1. The claim asks for the answer false, with the block unchanged, on every
  input without the pattern. When the exchange of xbx with itself is the first
  instruction of its block, the block is empty, \<^verbatim>\<open>instrlist_last\<close> gives \<^verbatim>\<open>NULL\<close> and
  the backward walk of \<^verbatim>\<open>match_valgrind_pattern\<close> reads the opcode of a null
  instruction, on either architecture.
\<close>

theorem valgrind_pattern_short_block:
  assumes "instr_get_src instr 0 = Some (OPND_REG DR_REG_XBX)"
    and "instr_get_dst instr 0 = Some (OPND_REG DR_REG_XBX)"
  shows "match_valgrind_pattern x64 [] instr = Inl NULL_DEREF"
  using assms
  by (simp add: match_valgrind_pattern_def opnd_same_def opnd_create_reg_def
        instrlist_last_nil Let_def VALGRIND_ANNOTATION_ROL_COUNT_def rol_loop_null)

theorem valgrind_pattern_short_block_witness:
  "instr_get_src ex_xchg 0 = Some (OPND_REG DR_REG_XBX) \<and>
   instr_get_dst ex_xchg 0 = Some (OPND_REG DR_REG_XBX) \<and>
   match_valgrind_pattern False [] ex_xchg = Inl NULL_DEREF \<and>
   match_valgrind_pattern True [] ex_xchg = Inl NULL_DEREF"
proof -
  have x: "instr_get_src ex_xchg 0 = Some (OPND_REG DR_REG_XBX)"
    "instr_get_dst ex_xchg 0 = Some (OPND_REG DR_REG_XBX)"
    by (simp_all add: ex_xchg_def ex_instr_def instr_get_src_def instr_get_dst_def)
  from x valgrind_pattern_short_block [OF x, of False]
    valgrind_pattern_short_block [OF x, of True]
  show ?thesis by blast
qed

text \<open>
  The same happens on a block of three rotates that match the last three positions of
  the pattern: the walk passes them and steps before the first instruction.
\<close>

lemma valgrind_pattern_three_rotates:
  "match_valgrind_pattern False
     [Instr (ex_rol 13), Instr (ex_rol 29), Instr (ex_rol 19)] ex_xchg = Inl NULL_DEREF"
  using rol_loop_short_example
  by (simp add: match_valgrind_pattern_def ex_xchg_def ex_instr_def instr_get_src_def
        instr_get_dst_def opnd_same_def opnd_create_reg_def Let_def
        VALGRIND_ANNOTATION_ROL_COUNT_def)

section \<open>Properties of the tracer\<close>

subsection \<open>The size cap\<close>

lemma over_size_cap_memory [simp]:
  "over_size_cap (st\<lparr>memory := m\<rparr>) skip = over_size_cap st skip"
  by (simp add: over_size_cap_def)

lemma over_size_cap_fill [simp]:
  "over_size_cap (st\<lparr>memory := m, BUF_PTR := bp\<rparr>) skip = over_size_cap st skip"
  by (simp add: over_size_cap_def)

lemma clear_buffer_fields [simp]:
  "data (clear_buffer C st bp) = data st"
  "io_log (clear_buffer C st bp) = io_log st"
  "op_max_trace_size (clear_buffer C st bp) = op_max_trace_size st"
  "alloc_results (clear_buffer C st bp) = alloc_results st"
  "BUF_PTR (clear_buffer C st bp) = BUF_PTR st"
  by (simp_all add: clear_buffer_def Let_def)

text \<open>
  What a drain does when the size cap is in force: it clears the buffer and rewinds
  the buffer pointer, and nothing else.
\<close>

lemma memtrace_over_cap:
  assumes "over_size_cap st skip"
  shows "\<exists>m. memtrace C st skip =
           Inr (st\<lparr>memory := m, BUF_PTR := buf_base (data st) + buf_hdr_slots_size C\<rparr>)"
proof (cases "BUF_PTR st = buf_base (data st) + buf_hdr_slots_size C")
  case True
  then have "memtrace C st skip = Inr st" by (simp add: memtrace_def)
  moreover from True
  have "st = st\<lparr>memory := memory st, BUF_PTR := buf_base (data st) + buf_hdr_slots_size C\<rparr>"
    by simp
  ultimately show ?thesis by metis
next
  case False
  show ?thesis
  proof (cases "num_refs (data st) = 0 \<and> op_offline C")
    case True
    with False assms show ?thesis
      by (auto simp: memtrace_def Let_def clear_buffer_def intro!: exI)
  next
    case False2: False
    with False assms show ?thesis
      by (auto simp: memtrace_def Let_def clear_buffer_def intro!: exI)
  qed
qed

lemma ex_capped_over: "over_size_cap ex_capped False"
  by (simp add: over_size_cap_def ex_capped_def ex_thread_def)

text \<open>
  Claim C6, as amended. When the size cap is in force and not bypassed, the drain
  writes nothing and counts nothing: it returns, no call to the pipe, the file or the
  handoff callback has been made, and \<^verbatim>\<open>bytes_written\<close> and \<^verbatim>\<open>num_refs\<close> hold what they
  held.
\<close>

theorem size_cap_suppresses_write_and_count:
  assumes "over_size_cap st skip"
  shows "\<exists>st'. memtrace C st skip = Inr st' \<and> io_log st' = io_log st \<and>
           bytes_written (data st') = bytes_written (data st) \<and>
           num_refs (data st') = num_refs (data st)"
proof -
  from memtrace_over_cap [OF assms, of C] obtain m where
    "memtrace C st skip =
       Inr (st\<lparr>memory := m, BUF_PTR := buf_base (data st) + buf_hdr_slots_size C\<rparr>)" ..
  then show ?thesis by simp
qed

theorem size_cap_suppresses_write_and_count_witness:
  "over_size_cap ex_capped False \<and>
   (\<exists>st'. memtrace ex_online ex_capped False = Inr st' \<and> io_log st' = [] \<and>
      bytes_written (data st') = 100 \<and> num_refs (data st') = 5)"
proof -
  have v: "io_log ex_capped = []" "bytes_written (data ex_capped) = 100"
    "num_refs (data ex_capped) = 5"
    by (simp_all add: ex_capped_def ex_thread_def)
  from size_cap_suppresses_write_and_count [OF ex_capped_over, of ex_online] v ex_capped_over
  show ?thesis by simp
qed

text \<open>
  Claim C6 as it stands fails: the buffer of this thread holds two entries (six bytes
  with the header slot) when the drain is called over the cap, and afterwards
  \<^verbatim>\<open>bytes_written\<close> is not six more and \<^verbatim>\<open>num_refs\<close> is not two more.
\<close>

theorem size_cap_keeps_counting_counterexample:
  "over_size_cap ex_capped False \<and>
   int (BUF_PTR ex_capped) - int (buf_base (data ex_capped)) = 6 \<and>
   (\<exists>st'. memtrace ex_online ex_capped False = Inr st' \<and>
      bytes_written (data st') \<noteq> bytes_written (data ex_capped) + 6 \<and>
      num_refs (data st') \<noteq> num_refs (data ex_capped) + 2)"
proof -
  from memtrace_over_cap [OF ex_capped_over, of ex_online] obtain m where
    "memtrace ex_online ex_capped False =
       Inr (ex_capped\<lparr>memory := m,
              BUF_PTR := buf_base (data ex_capped) + buf_hdr_slots_size ex_online\<rparr>)" ..
  then show ?thesis
    using ex_capped_over by (simp add: ex_capped_def ex_thread_def)
qed

lemma capped_after_decrement:
  fixes w :: "64 word"
  assumes "1 < w"
  shows "0 < w - 1 \<and> w - 1 < w"
proof -
  from assms have nz: "w \<noteq> 0" by auto
  have u: "unat (w - 1) = unat w - 1" by (rule unat_minus_one [OF nz])
  from assms have "1 < unat w" by (simp add: word_less_nat_alt)
  with u show ?thesis by (simp add: word_less_nat_alt)
qed

subsection \<open>Out of memory\<close>

lemma create_buffer_reserve:
  assumes "fst (dr_raw_mem_alloc st (max_buf_size C)) = 0"
    and "reserve_buf (data st) \<noteq> 0"
  shows "create_buffer C st =
           Inr (st\<lparr>data := (data st)\<lparr>buf_base := reserve_buf (data st)\<rparr>,
                   op_max_trace_size := bytes_written (data st) - 1,
                   alloc_results := tl (alloc_results st)\<rparr>)"
  using assms
  by (cases "alloc_results st")
     (auto simp: create_buffer_def dr_raw_mem_alloc_def Let_def)

lemma create_buffer_fatal:
  assumes "fst (dr_raw_mem_alloc st (max_buf_size C)) = 0"
    and "reserve_buf (data st) = 0"
  shows "\<exists>s. create_buffer C st = Inl (FATAL_ABORT, s)"
  using assms
  by (cases "alloc_results st")
     (auto simp: create_buffer_def dr_raw_mem_alloc_def Let_def)


subsection \<open>What the writing part of a drain leaves alone\<close>

lemma write_frame_refl [simp]: "write_frame st st"
  by (simp add: write_frame_def)

lemma write_frame_trans: "write_frame a b \<Longrightarrow> write_frame b c \<Longrightarrow> write_frame a c"
  by (simp add: write_frame_def)

lemma write_frame_data:
  assumes "write_frame st st'"
  shows "buf_base (data st') = buf_base (data st)"
    and "bytes_written (data st') = bytes_written (data st)"
    and "reserve_buf (data st') = reserve_buf (data st)"
    and "num_buffers (data st') = num_buffers (data st)"
proof -
  from assms have e: "(data st')\<lparr>num_refs := 0\<rparr> = (data st)\<lparr>num_refs := 0\<rparr>"
    by (simp add: write_frame_def)
  from arg_cong [OF e, of buf_base] show "buf_base (data st') = buf_base (data st)" by simp
  from arg_cong [OF e, of bytes_written]
  show "bytes_written (data st') = bytes_written (data st)" by simp
  from arg_cong [OF e, of reserve_buf] show "reserve_buf (data st') = reserve_buf (data st)"
    by simp
  from arg_cong [OF e, of num_buffers] show "num_buffers (data st') = num_buffers (data st)"
    by simp
qed

lemma write_frame_num_refs [simp]:
  "write_frame st (st\<lparr>data := (data st)\<lparr>num_refs := n\<rparr>\<rparr>)"
  by (simp add: write_frame_def)

lemma write_frame_memory:
  "write_frame st st' \<Longrightarrow> write_frame st (st'\<lparr>memory := m\<rparr>)"
  by (simp add: write_frame_def)

lemma write_frame_io_log:
  "write_frame st st' \<Longrightarrow> write_frame st (st'\<lparr>io_log := l\<rparr>)"
  by (simp add: write_frame_def)







subsection \<open>The rewind\<close>

lemma memset_inside: "p \<le> a \<Longrightarrow> a < p + n \<Longrightarrow> memset m p v n a = v"
  by (simp add: memset_def)

lemma memset_outside: "a < p \<or> p + n \<le> a \<Longrightarrow> memset m p v n a = m a"
  by (auto simp: memset_def)





lemma ex_sizes:
  "buf_hdr_slots_size ex_online = 2" "trace_buf_size ex_online = 8192"
  "handoff_buf ex_online = None" "\<not> op_offline ex_online"
  by (simp_all add: buf_hdr_slots_size_def trace_buf_size_def ex_online_def ex_instru_def
        BUF_HDR_SLOTS_def MAX_NUM_ENTRIES_def)



subsection \<open>Writes to the pipe\<close>

lemma hdr_is_entry: "buf_hdr_slots_size C = sizeof_entry (instru C)"
  by (simp add: buf_hdr_slots_size_def BUF_HDR_SLOTS_def)

lemma logged_refl [simp]: "logged C st0 st0"
  by (simp add: logged_def)

lemma logged_same_log: "io_log st' = io_log st \<Longrightarrow> logged C st0 st' = logged C st0 st"
  by (simp add: logged_def)

lemma logged_append:
  assumes "logged C st0 st" and "atomic_write C st0 e" and "io_log st' = io_log st @ [e]"
  shows "logged C st0 st'"
proof -
  from assms(1) obtain new where "io_log st = io_log st0 @ new"
    "list_all (atomic_write C st0) new" by (auto simp: logged_def)
  with assms(2,3) have "io_log st' = io_log st0 @ (new @ [e]) \<and>
    list_all (atomic_write C st0) (new @ [e])" by simp
  then show ?thesis unfolding logged_def by blast
qed

lemma on_grid_next:
  "on_grid C st p \<Longrightarrow> on_grid C st (p + sizeof_entry (instru C))"
proof -
  assume "on_grid C st p"
  then obtain k where "p = buf_base (data st) + buf_hdr_slots_size C + k * sizeof_entry (instru C)"
    by (auto simp: on_grid_def)
  then have "p + sizeof_entry (instru C) =
      buf_base (data st) + buf_hdr_slots_size C + Suc k * sizeof_entry (instru C)" by simp
  then show ?thesis unfolding on_grid_def by blast
qed

lemma on_grid_apart:
  assumes "on_grid C st p" and "on_grid C st q" and "p \<le> q"
  shows "q = p \<or> p + sizeof_entry (instru C) \<le> q"
proof -
  let ?z = "sizeof_entry (instru C)"
  let ?b = "buf_base (data st) + buf_hdr_slots_size C"
  from assms obtain k l where p: "p = ?b + k * ?z" and q: "q = ?b + l * ?z"
    by (auto simp: on_grid_def)
  show ?thesis
  proof (cases "k < l")
    case True
    then have "Suc k \<le> l" by simp
    then have "Suc k * ?z \<le> l * ?z" by (rule mult_le_mono1)
    then have "p + ?z \<le> q" unfolding p q by simp
    then show ?thesis ..
  next
    case False
    then have "l \<le> k" by simp
    then have "l * ?z \<le> k * ?z" by (rule mult_le_mono1)
    then have "q \<le> p" unfolding p q by simp
    with assms(3) show ?thesis by simp
  qed
qed

lemma stable_set_entry_addr:
  "entry_types_stable I \<Longrightarrow> q = p \<or> p + sizeof_entry I \<le> q \<Longrightarrow>
   get_entry_type I (set_entry_addr I m p a) q = get_entry_type I m q"
  unfolding entry_types_stable_def by blast

lemma stable_append_tid:
  "entry_types_stable I \<Longrightarrow> p + sizeof_entry I \<le> q \<Longrightarrow>
   get_entry_type I (append_tid I m p t) q = get_entry_type I m q"
  unfolding entry_types_stable_def by blast

lemma stable_append_unit_header:
  "entry_types_stable I \<Longrightarrow> p + sizeof_entry I \<le> q \<Longrightarrow>
   get_entry_type I (append_unit_header I m p t) q = get_entry_type I m q"
  unfolding entry_types_stable_def by blast

lemma atomic_pipe_write_logged:
  assumes l: "logged C st0 st"
    and b: "ps = buf_base (data st0) \<or> split_point C st0 (ps + buf_hdr_slots_size C)"
    and e: "pe = ps \<or> pe = BUF_PTR st0 \<or> split_point C st0 pe"
  shows "logged C st0 (state_of_pair (atomic_pipe_write C st ps pe))"
proof (cases "int pe - int ps \<le> get_atomic_write_size C \<and>
              int pe - int ps > int (buf_hdr_slots_size C)")
  case False
  with l show ?thesis
    by (auto simp: atomic_pipe_write_def Let_def state_of_pair_def)
next
  case True
  then have gt: "ps < pe" by simp
  then have "ps + nat (int pe - int ps) = pe" by simp
  with b e gt True have a: "atomic_write C st0 (Pipe_write ps (int pe - int ps))"
    by (auto simp: atomic_write_def)
  let ?s1 = "st\<lparr>io_log := io_log st @ [Pipe_write ps (int pe - int ps)]\<rparr>"
  have l1: "logged C st0 ?s1" by (rule logged_append [OF l a]) simp
  have "io_log (state_of_pair (atomic_pipe_write C st ps pe)) = io_log ?s1"
    using True by (simp add: atomic_pipe_write_def Let_def state_of_pair_def)
  from logged_same_log [OF this] l1 show ?thesis by simp
qed

lemma atomic_pipe_write_Inr:
  assumes "atomic_pipe_write C st ps pe = Inr (st', ps')"
  shows "ps' = pe - buf_hdr_slots_size C \<and>
         memory st' =
           append_tid (instru C) (memory st) (pe - buf_hdr_slots_size C) (dr_get_thread_id C) \<and>
         int (buf_hdr_slots_size C) < int pe - int ps"
  using assms by (auto simp: atomic_pipe_write_def Let_def split: if_splits)

lemma split_point_behind_write:
  assumes "atomic_pipe_write C st ps pe = Inr (st', ps')"
    and "pe = ps \<or> split_point C st0 pe"
  shows "split_point C st0 (ps' + buf_hdr_slots_size C)"
proof -
  from atomic_pipe_write_Inr [OF assms(1)]
  have "ps' = pe - buf_hdr_slots_size C" "int (buf_hdr_slots_size C) < int pe - int ps"
    by simp_all
  then have "ps' + buf_hdr_slots_size C = pe" "pe \<noteq> ps" by simp_all
  with assms(2) show ?thesis by simp
qed

lemma translate_entry_log:
  "io_log (final_state (translate_entry C st mr)) = io_log st"
  by (simp add: translate_entry_def Let_def final_state_def)

lemma translate_entry_memory:
  assumes "translate_entry C st mr = Inr st'"
  shows "memory st' = memory st \<or>
         (\<exists>a. memory st' = set_entry_addr (instru C) (memory st) mr a)"
  using assms by (auto simp: translate_entry_def Let_def split: if_splits)

text \<open>
  One iteration keeps the invariant of the loop, or stops with a good log.
\<close>

lemma entry_step_inv:
  assumes stable: "entry_types_stable (instru C)"
    and online: "\<not> op_offline C"
    and inv: "loop_inv C st0 st ps pe mr"
    and lt: "mr < BUF_PTR st0"
  shows "case entry_step C st ps pe mr of
           Inl (f, s) \<Rightarrow> logged C st0 s
         | Inr (s, ps', pe') \<Rightarrow> loop_inv C st0 s ps' pe' (mr + sizeof_entry (instru C))"
proof -
  let ?I = "instru C"
  let ?z = "sizeof_entry ?I"
  let ?s1 = "st\<lparr>data := (data st)\<lparr>num_refs := num_refs (data st) + 1\<rparr>\<rparr>"
  from inv have l: "logged C st0 st"
    and psc: "ps = buf_base (data st0) \<or> split_point C st0 (ps + buf_hdr_slots_size C)"
    and pe: "pe = ps \<or> split_point C st0 pe"
    and le: "pe \<le> mr" and g: "on_grid C st0 mr"
    and ty: "\<And>q. on_grid C st0 q \<Longrightarrow> mr \<le> q \<Longrightarrow>
               get_entry_type ?I (memory st) q = get_entry_type ?I (memory st0) q"
    by (simp_all add: loop_inv_def)
  have l1: "logged C st0 ?s1" using l by (simp add: logged_def)
  show ?thesis
  proof (cases "translate_entry C ?s1 mr")
    case (Inl x)
    obtain f s where x: "x = (f, s)" by (cases x)
    from translate_entry_log [of C ?s1 mr] Inl x have "io_log s = io_log ?s1"
      by (simp add: final_state_def)
    from logged_same_log [OF this] l1 Inl x show ?thesis
      by (simp add: entry_step_def Let_def)
  next
    case (Inr st2)
    from translate_entry_log [of C ?s1 mr] Inr have lg2: "io_log st2 = io_log ?s1"
      by (simp add: final_state_def)
    from logged_same_log [OF lg2] l1 have l2: "logged C st0 st2" by simp
    have ty2: "get_entry_type ?I (memory st2) q = get_entry_type ?I (memory st0) q"
      if "on_grid C st0 q" "mr \<le> q" for q
    proof -
      from on_grid_apart [OF g that] have d: "q = mr \<or> mr + ?z \<le> q" .
      from translate_entry_memory [OF Inr]
      have "get_entry_type ?I (memory st2) q = get_entry_type ?I (memory st) q"
      proof
        assume "memory st2 = memory ?s1"
        then show ?thesis by simp
      next
        assume "\<exists>a. memory st2 = set_entry_addr ?I (memory ?s1) mr a"
        then obtain a where "memory st2 = set_entry_addr ?I (memory st) mr a" by auto
        with stable_set_entry_addr [OF stable d] show ?thesis by simp
      qed
      with ty [OF that] show ?thesis by simp
    qed
    have g': "on_grid C st0 (mr + ?z)" by (rule on_grid_next [OF g])
    have keep: "loop_inv C st0 st2 ps pe' (mr + ?z)"
      if "pe' = ps \<or> split_point C st0 pe'" "pe' \<le> mr" for pe'
      using that l2 psc g' ty2 by (simp add: loop_inv_def)
    show ?thesis
    proof (cases "get_entry_type ?I (memory st2) mr = TRACE_TYPE_INSTR")
      case False
      with Inr online keep [OF pe le] show ?thesis
        by (simp add: entry_step_def Let_def)
    next
      case True
      with ty2 [OF g] have "get_entry_type ?I (memory st0) mr = TRACE_TYPE_INSTR" by simp
      with g lt have sp: "split_point C st0 mr" by (simp add: split_point_def)
      show ?thesis
      proof (cases "int mr - int ps > get_atomic_write_size C")
        case False
        from keep [of mr] sp have "loop_inv C st0 st2 ps mr (mr + ?z)" by simp
        with Inr online True False show ?thesis
          by (simp add: entry_step_def Let_def)
      next
        case far: True
        from pe have e: "pe = ps \<or> pe = BUF_PTR st0 \<or> split_point C st0 pe" by blast
        note w = atomic_pipe_write_logged [OF l2 psc e]
        show ?thesis
        proof (cases "atomic_pipe_write C st2 ps pe")
          case (Inl x)
          obtain f s where x: "x = (f, s)" by (cases x)
          from w Inl x have "logged C st0 s" by (simp add: state_of_pair_def)
          with Inr online True far Inl x show ?thesis
            by (simp add: entry_step_def Let_def)
        next
          case wr: (Inr y)
          obtain st3 ps1 where y: "y = (st3, ps1)" by (cases y)
          from w wr y have l3: "logged C st0 st3" by (simp add: state_of_pair_def)
          from atomic_pipe_write_Inr [OF wr [unfolded y]]
          have m3: "memory st3 =
              append_tid ?I (memory st2) (pe - buf_hdr_slots_size C) (dr_get_thread_id C)"
            by simp
          have ty3: "get_entry_type ?I (memory st3) q = get_entry_type ?I (memory st0) q"
            if "on_grid C st0 q" "mr + ?z \<le> q" for q
          proof -
            from that(2) le have "pe - buf_hdr_slots_size C + ?z \<le> q"
              by (simp add: hdr_is_entry)
            from stable_append_tid [OF stable this] m3
            have "get_entry_type ?I (memory st3) q = get_entry_type ?I (memory st2) q"
              by simp
            with ty2 [OF that(1)] that(2) show ?thesis by simp
          qed
          note p1 = split_point_behind_write [OF wr [unfolded y] pe]
          from l3 p1 sp g' ty3 have "loop_inv C st0 st3 ps1 mr (mr + ?z)"
            by (simp add: loop_inv_def)
          with Inr online True far wr y show ?thesis
            by (simp add: entry_step_def Let_def)
        qed
      qed
    qed
  qed
qed

lemma entry_loop_inv:
  "entry_types_stable (instru C) \<Longrightarrow> \<not> op_offline C \<Longrightarrow>
   loop_inv C st0 st ps pe mr \<Longrightarrow> bp = BUF_PTR st0 \<Longrightarrow>
   (case entry_loop C bp st ps pe mr of
      Inl (f, s) \<Rightarrow> logged C st0 s
    | Inr (s, ps', pe') \<Rightarrow>
        logged C st0 s \<and>
        (ps' = buf_base (data st0) \<or> split_point C st0 (ps' + buf_hdr_slots_size C)) \<and>
        (pe' = ps' \<or> split_point C st0 pe'))"
proof (induction C bp st ps pe mr rule: entry_loop.induct)
  case (1 C bp st ps pe mr)
  note stable = "1.prems"(1) and online = "1.prems"(2)
    and inv = "1.prems"(3) and bp = "1.prems"(4)
  show ?case
  proof (cases "mr < bp")
    case False
    with inv show ?thesis
      by (simp add: entry_loop.simps loop_inv_def)
  next
    case True
    show ?thesis
    proof (cases "sizeof_entry (instru C) = 0")
      case z: True
      with True inv show ?thesis
        by (simp add: entry_loop.simps loop_inv_def)
    next
      case nz: False
      from True bp have lt: "mr < BUF_PTR st0" by simp
      note s = entry_step_inv [OF stable online inv lt]
      show ?thesis
      proof (cases "entry_step C st ps pe mr")
        case (Inl x)
        obtain f t where "x = (f, t)" by (cases x)
        with s Inl True nz show ?thesis
          by (simp add: entry_loop.simps)
      next
        case (Inr y)
        obtain st1 ps1 pe1 where y: "y = (st1, ps1, pe1)" by (cases y)
        from s Inr y have i1: "loop_inv C st0 st1 ps1 pe1 (mr + sizeof_entry (instru C))"
          by simp
        from "1.IH" [OF True nz Inr [unfolded y] refl refl stable online i1 bp]
        show ?thesis
          using True nz Inr y by (simp add: entry_loop.simps)
      qed
    qed
  qed
qed

lemma write_buffer_logged:
  assumes stable: "entry_types_stable (instru C)"
    and online: "\<not> op_offline C"
    and inv: "loop_inv C st0 st (buf_base (data st)) (buf_base (data st))
                (buf_base (data st) + hs)"
  shows "logged C st0 (final_state (write_buffer C st hs (BUF_PTR st0)))"
proof -
  let ?b = "buf_base (data st)"
  let ?bp = "BUF_PTR st0"
  note l = entry_loop_inv [OF stable online inv refl]
  show ?thesis
  proof (cases "entry_loop C ?bp st ?b ?b (?b + hs)")
    case (Inl x)
    obtain f t where "x = (f, t)" by (cases x)
    with l Inl show ?thesis by (simp add: write_buffer_def final_state_def)
  next
    case (Inr y)
    obtain st1 ps pe where y: "y = (st1, ps, pe)" by (cases y)
    from l Inr y have l1: "logged C st0 st1"
      and psc: "ps = buf_base (data st0) \<or> split_point C st0 (ps + buf_hdr_slots_size C)"
      and pe: "pe = ps \<or> split_point C st0 pe"
      by simp_all
    define r where "r = (if int ?bp - int ps > get_atomic_write_size C
                         then atomic_pipe_write C st1 ps pe else Inr (st1, ps))"
    from pe have e: "pe = ps \<or> pe = ?bp \<or> split_point C st0 pe" by blast
    have lr: "logged C st0 (state_of_pair r)"
      using atomic_pipe_write_logged [OF l1 psc e] l1
      by (simp add: r_def state_of_pair_def)
    have wb: "write_buffer C st hs ?bp =
        (case r of
           Inl e \<Rightarrow> Inl e
         | Inr (st2, ps1) \<Rightarrow>
             if int ?bp - int ps1 > int (buf_hdr_slots_size C) then
               (case atomic_pipe_write C st2 ps1 ?bp of
                  Inl e \<Rightarrow> Inl e
                | Inr (st3, p) \<Rightarrow> Inr st3)
             else Inr st2)"
      using Inr y online by (simp add: write_buffer_def r_def)
    show ?thesis
    proof (cases r)
      case (Inl x)
      obtain f t where "x = (f, t)" by (cases x)
      with lr Inl show ?thesis
        unfolding wb by (simp add: state_of_pair_def final_state_def)
    next
      case rr: (Inr z)
      obtain st2 ps1 where z: "z = (st2, ps1)" by (cases z)
      from lr rr z have l2: "logged C st0 st2" by (simp add: state_of_pair_def)
      have p1: "ps1 = buf_base (data st0) \<or> split_point C st0 (ps1 + buf_hdr_slots_size C)"
      proof (cases "int ?bp - int ps > get_atomic_write_size C")
        case False
        with rr z have "ps1 = ps" by (simp add: r_def)
        with psc show ?thesis by simp
      next
        case True
        with rr z have "atomic_pipe_write C st1 ps pe = Inr (st2, ps1)" by (simp add: r_def)
        from split_point_behind_write [OF this pe] show ?thesis ..
      qed
      have "logged C st0 (state_of_pair (atomic_pipe_write C st2 ps1 ?bp))"
        by (rule atomic_pipe_write_logged [OF l2 p1]) simp
      with l2 rr z show ?thesis
        unfolding wb
        by (auto simp: state_of_pair_def final_state_def split: sum.splits)
    qed
  qed
qed

lemma create_buffer_log:
  "io_log (final_state (create_buffer C st)) = io_log st"
  by (auto simp: create_buffer_def dr_raw_mem_alloc_def Let_def final_state_def
        split: list.splits)

lemma memtrace_logged:
  assumes stable: "entry_types_stable (instru C)"
    and online: "\<not> op_offline C"
  shows "logged C st (final_state (memtrace C st skip))"
proof (cases "BUF_PTR st = buf_base (data st) + buf_hdr_slots_size C")
  case True
  then show ?thesis by (simp add: memtrace_def final_state_def)
next
  case ne: False
  let ?I = "instru C"
  define st1 where "st1 = st\<lparr>memory := append_unit_header ?I (memory st) (buf_base (data st))
                           (dr_get_thread_id C)\<rparr>"
  show ?thesis
  proof (cases "over_size_cap st skip")
    case True
    with ne online have "io_log (final_state (memtrace C st skip)) = io_log st"
      by (simp add: memtrace_def Let_def final_state_def)
    from logged_same_log [OF this] show ?thesis by simp
  next
    case False
    define st2 where "st2 = st1\<lparr>data := (data st1)\<lparr>bytes_written := bytes_written (data st1) +
         word_of_int (int (BUF_PTR st) - int (buf_base (data st1)))\<rparr>\<rparr>"
    have b2: "buf_base (data st2) = buf_base (data st)" by (simp add: st2_def st1_def)
    have g0: "on_grid C st (buf_base (data st) + buf_hdr_slots_size C)"
      unfolding on_grid_def by (rule exI [of _ 0]) simp
    have ty: "get_entry_type ?I (memory st2) q = get_entry_type ?I (memory st) q"
      if "buf_base (data st) + buf_hdr_slots_size C \<le> q" for q
    proof -
      from that have "buf_base (data st) + sizeof_entry ?I \<le> q" by (simp add: hdr_is_entry)
      from stable_append_unit_header [OF stable this] show ?thesis
        by (simp add: st2_def st1_def)
    qed
    have "logged C st st2" by (simp add: logged_def st2_def st1_def)
    with g0 ty have inv: "loop_inv C st st2 (buf_base (data st2)) (buf_base (data st2))
                (buf_base (data st2) + buf_hdr_slots_size C)"
      unfolding b2 by (simp add: loop_inv_def)
    note w = write_buffer_logged [OF stable online inv]
    have mt: "memtrace C st skip =
        (case write_buffer C st2 (buf_hdr_slots_size C) (BUF_PTR st) of
           Inl e \<Rightarrow> Inl e
         | Inr st3 \<Rightarrow>
             (case (if handoff_buf C \<noteq> None then create_buffer C st3
                    else Inr (clear_buffer C st3 (BUF_PTR st))) of
                Inl e \<Rightarrow> Inl e
              | Inr st4 \<Rightarrow> Inr (st4\<lparr>BUF_PTR := buf_base (data st4) + buf_hdr_slots_size C\<rparr>)))"
      using ne False online
      by (auto simp: memtrace_def Let_def st2_def st1_def split: sum.splits)
    show ?thesis
    proof (cases "write_buffer C st2 (buf_hdr_slots_size C) (BUF_PTR st)")
      case (Inl x)
      obtain f t where "x = (f, t)" by (cases x)
      with w Inl show ?thesis unfolding mt by (simp add: final_state_def)
    next
      case (Inr st3)
      with w have l3: "logged C st st3" by (simp add: final_state_def)
      have "io_log (final_state (memtrace C st skip)) = io_log st3"
        unfolding mt using Inr create_buffer_log [of C st3]
        by (auto simp: final_state_def split: sum.splits)
      from logged_same_log [OF this] l3 show ?thesis by simp
    qed
  qed
qed


lemma atomic_write_pipe:
  assumes "atomic_write C st e"
  shows "\<exists>s n. e = Pipe_write s n \<and> n \<le> get_atomic_write_size C \<and>
           (s = buf_base (data st) \<or> split_point C st (s + buf_hdr_slots_size C)) \<and>
           (s + nat n = BUF_PTR st \<or> split_point C st (s + nat n))"
  using assms by (cases e) (auto simp: atomic_write_def)

text \<open>
  A write that starts at the base of the buffer or one header slot before an
  instruction entry carries, with an entry, the instruction entry it belongs to.
\<close>

lemma payload_keeps_instr:
  assumes s: "s = buf_base (data st) \<or> split_point C st (s + buf_hdr_slots_size C)"
    and i: "instr_of C st q i"
    and lo: "s + buf_hdr_slots_size C \<le> q"
    and hi: "q < e"
  shows "s + buf_hdr_slots_size C \<le> i \<and> i < e"
proof
  from i have "i \<le> q" by (simp add: instr_of_def)
  with hi show "i < e" by simp
  from s show "s + buf_hdr_slots_size C \<le> i"
  proof
    assume "s = buf_base (data st)"
    moreover from i have "on_grid C st i" by (simp add: instr_of_def)
    ultimately show ?thesis by (auto simp: on_grid_def)
  next
    assume sp: "split_point C st (s + buf_hdr_slots_size C)"
    show ?thesis
    proof (rule ccontr)
      assume "\<not> s + buf_hdr_slots_size C \<le> i"
      then have "i < s + buf_hdr_slots_size C" by simp
      moreover from sp have "on_grid C st (s + buf_hdr_slots_size C)"
        "get_entry_type (instru C) (memory st) (s + buf_hdr_slots_size C) = TRACE_TYPE_INSTR"
        by (simp_all add: split_point_def)
      moreover from i have "\<forall>r. on_grid C st r \<and> i < r \<and> r \<le> q \<longrightarrow>
          get_entry_type (instru C) (memory st) r \<noteq> TRACE_TYPE_INSTR"
        by (simp add: instr_of_def)
      ultimately show False using lo by blast
    qed
  qed
qed

text \<open>
  The bound on the size and the chaining of the writes do not need anything of the
  strategy.
\<close>

lemma chain_end_append:
  "chain_end h p (es @ [Pipe_write s n]) =
     (case chain_end h p es of
        None \<Rightarrow> None
      | Some q \<Rightarrow> if s + h = q \<and> int h < n then Some (s + nat n) else None)"
  by (induction h p es rule: chain_end.induct) auto

lemma write_chain_end: "write_chain h p es \<longleftrightarrow> chain_end h p es \<noteq> None"
  by (induction h p es rule: write_chain.induct) auto

lemma sized_to_writes: "sized_to C b old st ps \<Longrightarrow> sized_writes C b old st"
  by (auto simp: sized_to_def sized_writes_def)

lemma sized_to_start [simp]: "sized_to C b (io_log st) st b"
  by (simp add: sized_to_def)

lemma sized_writes_same_log:
  "io_log st' = io_log st \<Longrightarrow> sized_writes C b old st' = sized_writes C b old st"
  by (simp add: sized_writes_def)

lemma sized_to_same_log:
  "io_log st' = io_log st \<Longrightarrow> sized_to C b old st' ps = sized_to C b old st ps"
  by (simp add: sized_to_def)

lemma atomic_pipe_write_sized:
  assumes "sized_to C b old st ps"
  shows "case atomic_pipe_write C st ps pe of
           Inl (f, t) \<Rightarrow> sized_writes C b old t
         | Inr (t, ps') \<Rightarrow> sized_to C b old t ps'"
proof -
  let ?h = "buf_hdr_slots_size C"
  from assms obtain new where n: "io_log st = old @ new"
    "list_all (\<lambda>e. \<exists>s n. e = Pipe_write s n \<and> n \<le> get_atomic_write_size C) new"
    "chain_end ?h (b + ?h) new = Some (ps + ?h)"
    by (auto simp: sized_to_def)
  show ?thesis
  proof (cases "int pe - int ps \<le> get_atomic_write_size C \<and> int pe - int ps > int ?h")
    case False
    with sized_to_writes [OF assms] show ?thesis
      by (simp add: atomic_pipe_write_def Let_def)
  next
    case True
    let ?w = "Pipe_write ps (int pe - int ps)"
    let ?s1 = "st\<lparr>io_log := io_log st @ [?w]\<rparr>"
    from True have pe: "ps + nat (int pe - int ps) = pe" "pe - ?h + ?h = pe" by linarith+
    from n(3) True pe(1) have c: "chain_end ?h (b + ?h) (new @ [?w]) = Some (pe - ?h + ?h)"
      unfolding pe(2) by (simp add: chain_end_append)
    from n(2) True
    have a: "list_all (\<lambda>e. \<exists>s n. e = Pipe_write s n \<and> n \<le> get_atomic_write_size C)
               (new @ [?w])"
      by simp
    from n(1) have "io_log ?s1 = old @ (new @ [?w])" by simp
    with a c have t: "sized_to C b old ?s1 (pe - ?h)"
      unfolding sized_to_def by blast
    then have t2: "sized_to C b old (?s1\<lparr>memory := m\<rparr>) (pe - ?h)" for m
      by (simp add: sized_to_def)
    from True t t2 sized_to_writes [OF t] show ?thesis
      by (simp add: atomic_pipe_write_def Let_def)
  qed
qed

lemma entry_step_sized:
  assumes online: "\<not> op_offline C" and s: "sized_to C b old st ps"
  shows "case entry_step C st ps pe mr of
           Inl (f, t) \<Rightarrow> sized_writes C b old t
         | Inr (t, ps', pe') \<Rightarrow> sized_to C b old t ps'"
proof -
  let ?s1 = "st\<lparr>data := (data st)\<lparr>num_refs := num_refs (data st) + 1\<rparr>\<rparr>"
  have s1: "sized_to C b old ?s1 ps" using s by (simp add: sized_to_def)
  show ?thesis
  proof (cases "translate_entry C ?s1 mr")
    case (Inl x)
    obtain f t where x: "x = (f, t)" by (cases x)
    from translate_entry_log [of C ?s1 mr] Inl x have "io_log t = io_log ?s1"
      by (simp add: final_state_def)
    from sized_writes_same_log [OF this] sized_to_writes [OF s1] Inl x show ?thesis
      by (simp add: entry_step_def Let_def)
  next
    case (Inr st2)
    from translate_entry_log [of C ?s1 mr] Inr have "io_log st2 = io_log ?s1"
      by (simp add: final_state_def)
    from sized_to_same_log [OF this] s1 have s2: "sized_to C b old st2 ps" by simp
    note w = atomic_pipe_write_sized [OF s2, of pe]
    show ?thesis
    proof (cases "get_entry_type (instru C) (memory st2) mr = TRACE_TYPE_INSTR \<and>
                  int mr - int ps > get_atomic_write_size C")
      case False
      with Inr online s2 show ?thesis
        by (auto simp: entry_step_def Let_def)
    next
      case True
      with Inr online w show ?thesis
        by (auto simp: entry_step_def Let_def split: sum.splits)
    qed
  qed
qed

lemma entry_loop_sized:
  "\<not> op_offline C \<Longrightarrow> sized_to C b old st ps \<Longrightarrow>
   (case entry_loop C bp st ps pe mr of
      Inl (f, t) \<Rightarrow> sized_writes C b old t
    | Inr (t, ps', pe') \<Rightarrow> sized_to C b old t ps')"
proof (induction C bp st ps pe mr rule: entry_loop.induct)
  case (1 C bp st ps pe mr)
  note online = "1.prems"(1) and s = "1.prems"(2)
  show ?case
  proof (cases "mr < bp")
    case False
    with s show ?thesis by (simp add: entry_loop.simps)
  next
    case lt: True
    show ?thesis
    proof (cases "sizeof_entry (instru C) = 0")
      case True
      with lt sized_to_writes [OF s] show ?thesis by (simp add: entry_loop.simps)
    next
      case nz: False
      note st = entry_step_sized [OF online s, of pe mr]
      show ?thesis
      proof (cases "entry_step C st ps pe mr")
        case (Inl x)
        obtain f t where "x = (f, t)" by (cases x)
        with st Inl lt nz show ?thesis by (simp add: entry_loop.simps)
      next
        case (Inr y)
        obtain st1 ps1 pe1 where y: "y = (st1, ps1, pe1)" by (cases y)
        from st Inr y have s1: "sized_to C b old st1 ps1" by simp
        from "1.IH" [OF lt nz Inr [unfolded y] refl refl online s1]
        show ?thesis
          using lt nz Inr y by (simp add: entry_loop.simps)
      qed
    qed
  qed
qed

lemma write_buffer_sized:
  assumes online: "\<not> op_offline C" and s: "sized_to C b old st (buf_base (data st))"
  shows "sized_writes C b old (final_state (write_buffer C st hs bp))"
proof -
  let ?b = "buf_base (data st)"
  note l = entry_loop_sized [OF online s, of bp ?b "?b + hs"]
  show ?thesis
  proof (cases "entry_loop C bp st ?b ?b (?b + hs)")
    case (Inl x)
    obtain f t where "x = (f, t)" by (cases x)
    with l Inl show ?thesis by (simp add: write_buffer_def final_state_def)
  next
    case (Inr y)
    obtain st1 ps pe where y: "y = (st1, ps, pe)" by (cases y)
    from l Inr y have s1: "sized_to C b old st1 ps" by simp
    define r where "r = (if int bp - int ps > get_atomic_write_size C
                         then atomic_pipe_write C st1 ps pe else Inr (st1, ps))"
    have sr: "case r of Inl (f, t) \<Rightarrow> sized_writes C b old t
              | Inr (t, ps') \<Rightarrow> sized_to C b old t ps'"
      using atomic_pipe_write_sized [OF s1, of pe] s1 by (simp add: r_def)
    have wb: "write_buffer C st hs bp =
        (case r of
           Inl e \<Rightarrow> Inl e
         | Inr (st2, ps1) \<Rightarrow>
             if int bp - int ps1 > int (buf_hdr_slots_size C) then
               (case atomic_pipe_write C st2 ps1 bp of
                  Inl e \<Rightarrow> Inl e
                | Inr (st3, p) \<Rightarrow> Inr st3)
             else Inr st2)"
      using Inr y online by (simp add: write_buffer_def r_def)
    show ?thesis
    proof (cases r)
      case (Inl x)
      obtain f t where "x = (f, t)" by (cases x)
      with sr Inl show ?thesis
        unfolding wb by (simp add: final_state_def)
    next
      case rr: (Inr z)
      obtain st2 ps1 where z: "z = (st2, ps1)" by (cases z)
      from sr rr z have s2: "sized_to C b old st2 ps1" by simp
      from atomic_pipe_write_sized [OF s2, of bp] sized_to_writes [OF s2] rr z
      show ?thesis
        unfolding wb
        by (auto simp: final_state_def dest: sized_to_writes split: sum.splits)
    qed
  qed
qed

lemma memtrace_sized:
  assumes online: "\<not> op_offline C"
  shows "sized_writes C (buf_base (data st)) (io_log st) (final_state (memtrace C st skip))"
proof (cases "BUF_PTR st = buf_base (data st) + buf_hdr_slots_size C")
  case True
  then show ?thesis by (simp add: memtrace_def final_state_def sized_writes_def)
next
  case ne: False
  show ?thesis
  proof (cases "over_size_cap st skip")
    case True
    with ne online have "io_log (final_state (memtrace C st skip)) = io_log st"
      by (simp add: memtrace_def Let_def final_state_def)
    from sized_writes_same_log [OF this] show ?thesis by (simp add: sized_writes_def)
  next
    case False
    define st2 where "st2 =
      st\<lparr>memory := append_unit_header (instru C) (memory st) (buf_base (data st))
                     (dr_get_thread_id C),
         data := (data st)\<lparr>bytes_written := bytes_written (data st) +
           word_of_int (int (BUF_PTR st) - int (buf_base (data st)))\<rparr>\<rparr>"
    have "sized_to C (buf_base (data st)) (io_log st) st2 (buf_base (data st2))"
      by (simp add: sized_to_def st2_def)
    note w = write_buffer_sized [OF online this, of "buf_hdr_slots_size C" "BUF_PTR st"]
    have mt: "memtrace C st skip =
        (case write_buffer C st2 (buf_hdr_slots_size C) (BUF_PTR st) of
           Inl e \<Rightarrow> Inl e
         | Inr st3 \<Rightarrow>
             (case (if handoff_buf C \<noteq> None then create_buffer C st3
                    else Inr (clear_buffer C st3 (BUF_PTR st))) of
                Inl e \<Rightarrow> Inl e
              | Inr st4 \<Rightarrow> Inr (st4\<lparr>BUF_PTR := buf_base (data st4) + buf_hdr_slots_size C\<rparr>)))"
      using ne False online
      by (auto simp: memtrace_def Let_def st2_def split: sum.splits)
    show ?thesis
    proof (cases "write_buffer C st2 (buf_hdr_slots_size C) (BUF_PTR st)")
      case (Inl x)
      obtain f t where "x = (f, t)" by (cases x)
      with w Inl show ?thesis unfolding mt by (simp add: final_state_def)
    next
      case (Inr st3)
      with w have s3: "sized_writes C (buf_base (data st)) (io_log st) st3"
        by (simp add: final_state_def)
      have "io_log (final_state (memtrace C st skip)) = io_log st3"
        unfolding mt using Inr create_buffer_log [of C st3]
        by (auto simp: final_state_def split: sum.splits)
      from sized_writes_same_log [OF this] s3 show ?thesis by simp
    qed
  qed
qed

text \<open>
  Claim C5. In online mode, whatever the drain does afterwards, the calls of
  \<^verbatim>\<open>ipc_pipe.write\<close> it has issued form a chain from the first entry of the buffer on:
  each write starts one header slot before the first entry that has not been written
  yet and carries more than the header slot, so that every entry is carried once; and
  each write is of at most \<^verbatim>\<open>get_atomic_write_size()\<close> bytes. With a strategy that keeps
  the types of the entries, a write starts at the base of the buffer or one header slot
  before an instruction entry of the drained buffer, and ends at the buffer pointer or
  at the start of an instruction entry: the buffer is split only before instruction
  entries, and every entry carried by a write has the instruction entry it belongs to
  in the same write.
\<close>

theorem pipe_writes_atomic:
  assumes "\<not> op_offline C"
  shows "write_chain (buf_hdr_slots_size C) (buf_base (data st) + buf_hdr_slots_size C)
           (drop (length (io_log st)) (io_log (final_state (memtrace C st skip)))) \<and>
         (\<forall>e \<in> set (drop (length (io_log st)) (io_log (final_state (memtrace C st skip)))).
            \<exists>s n. e = Pipe_write s n \<and> n \<le> get_atomic_write_size C \<and>
              (entry_types_stable (instru C) \<longrightarrow>
                 (s = buf_base (data st) \<or> split_point C st (s + buf_hdr_slots_size C)) \<and>
                 (s + nat n = BUF_PTR st \<or> split_point C st (s + nat n)) \<and>
                 (\<forall>q i. instr_of C st q i \<and> s + buf_hdr_slots_size C \<le> q \<and> q < s + nat n \<longrightarrow>
                        s + buf_hdr_slots_size C \<le> i \<and> i < s + nat n)))"
proof -
  from memtrace_sized [OF assms, of st skip] obtain new where
    n: "io_log (final_state (memtrace C st skip)) = io_log st @ new"
    and a: "list_all (\<lambda>e. \<exists>s n. e = Pipe_write s n \<and> n \<le> get_atomic_write_size C) new"
    and c: "chain_end (buf_hdr_slots_size C) (buf_base (data st) + buf_hdr_slots_size C) new
              \<noteq> None"
    by (auto simp: sized_writes_def)
  have d: "drop (length (io_log st)) (io_log st @ new) = new" by simp
  from c have chain: "write_chain (buf_hdr_slots_size C)
      (buf_base (data st) + buf_hdr_slots_size C) new"
    by (simp add: write_chain_end)
  from a have sz: "\<forall>e \<in> set new. \<exists>s n. e = Pipe_write s n \<and> n \<le> get_atomic_write_size C"
    by (simp add: list_all_iff)
  have each: "\<exists>s n. e = Pipe_write s n \<and> n \<le> get_atomic_write_size C \<and>
      (entry_types_stable (instru C) \<longrightarrow>
         (s = buf_base (data st) \<or> split_point C st (s + buf_hdr_slots_size C)) \<and>
         (s + nat n = BUF_PTR st \<or> split_point C st (s + nat n)) \<and>
         (\<forall>q i. instr_of C st q i \<and> s + buf_hdr_slots_size C \<le> q \<and> q < s + nat n \<longrightarrow>
                s + buf_hdr_slots_size C \<le> i \<and> i < s + nat n))"
    if e: "e \<in> set new" for e
  proof (cases "entry_types_stable (instru C)")
    case False
    with sz e show ?thesis by blast
  next
    case True
    from memtrace_logged [OF True assms, of st skip] obtain new' where
      "io_log (final_state (memtrace C st skip)) = io_log st @ new'"
      and l: "list_all (atomic_write C st) new'"
      by (auto simp: logged_def)
    with n have "new' = new" by simp
    with l e have "atomic_write C st e" by (simp add: list_all_iff)
    from atomic_write_pipe [OF this] obtain s k where
      w: "e = Pipe_write s k" "k \<le> get_atomic_write_size C"
      and b: "s = buf_base (data st) \<or> split_point C st (s + buf_hdr_slots_size C)"
      and f: "s + nat k = BUF_PTR st \<or> split_point C st (s + nat k)"
      by blast
    have "\<forall>q i. instr_of C st q i \<and> s + buf_hdr_slots_size C \<le> q \<and> q < s + nat k \<longrightarrow>
            s + buf_hdr_slots_size C \<le> i \<and> i < s + nat k"
      using payload_keeps_instr [OF b] by blast
    with w b f show ?thesis by blast
  qed
  show ?thesis
    unfolding n d using chain each by blast
qed

lemma ex_instru_stable: "entry_types_stable ex_instru"
  by (simp add: entry_types_stable_def ex_instru_def)

lemma ex_split_run:
  "io_log (final_state (memtrace ex_online ex_split False)) =
     [Pipe_write 1000 6, Pipe_write 1004 6, Pipe_write 1008 6]"
  by (simp add: memtrace_def ex_online_def ex_split_def ex_drain_def ex_capped_def ex_thread_def
     ex_instru_def buf_hdr_slots_size_def BUF_HDR_SLOTS_def Let_def over_size_cap_def
     write_buffer_def entry_loop.simps entry_step_def translate_entry_def ex_entry_type_def
     atomic_pipe_write_def clear_buffer_def trace_buf_size_def MAX_NUM_ENTRIES_def memset_def
     final_state_def)

lemma ex_split_grid:
  "on_grid ex_online ex_split p \<longleftrightarrow> 1002 \<le> p \<and> even p"
proof -
  have "on_grid ex_online ex_split p \<longleftrightarrow> (\<exists>k. p = 1002 + k * 2)"
    by (simp add: on_grid_def ex_split_def ex_drain_def ex_capped_def ex_thread_def
          buf_hdr_slots_size_def BUF_HDR_SLOTS_def ex_online_def ex_instru_def)
  also have "\<dots> \<longleftrightarrow> 1002 \<le> p \<and> even p"
  proof
    assume "\<exists>k. p = 1002 + k * 2"
    then show "1002 \<le> p \<and> even p" by auto
  next
    assume a: "1002 \<le> p \<and> even p"
    then obtain j where "p = 2 * j" by (auto elim: evenE)
    with a have "p = 1002 + (j - 501) * 2" by simp
    then show "\<exists>k. p = 1002 + k * 2" ..
  qed
  finally show ?thesis .
qed

lemma ex_split_instr_of: "instr_of ex_online ex_split 1012 1010"
proof -
  have t: "get_entry_type (instru ex_online) (memory ex_split) 1010 = TRACE_TYPE_INSTR"
    "get_entry_type (instru ex_online) (memory ex_split) 1012 \<noteq> TRACE_TYPE_INSTR"
    by (simp_all add: ex_online_def ex_instru_def ex_split_def ex_entry_type_def)
  have "r = 1012" if "even r" "1010 < r" "r \<le> 1012" for r :: nat
  proof -
    from that(1) obtain j where "r = 2 * j" by (auto elim: evenE)
    with that(2,3) show ?thesis by simp
  qed
  with t show ?thesis
    unfolding instr_of_def ex_split_grid by auto
qed

theorem pipe_writes_atomic_witness:
  "\<not> op_offline ex_online \<and> entry_types_stable (instru ex_online) \<and>
   io_log (final_state (memtrace ex_online ex_split False)) =
     [Pipe_write 1000 6, Pipe_write 1004 6, Pipe_write 1008 6] \<and>
   write_chain 2 1002 [Pipe_write 1000 6, Pipe_write 1004 6, Pipe_write 1008 6] \<and>
   (6::int) \<le> get_atomic_write_size ex_online \<and>
   split_point ex_online ex_split 1006 \<and> split_point ex_online ex_split 1010 \<and>
   BUF_PTR ex_split = 1014 \<and>
   instr_of ex_online ex_split 1012 1010"
proof -
  have o: "\<not> op_offline ex_online" by (simp add: ex_online_def)
  have s: "entry_types_stable (instru ex_online)"
    using ex_instru_stable by (simp add: ex_online_def)
  have v: "io_log ex_split = []" "BUF_PTR ex_split = 1014" "buf_base (data ex_split) = 1000"
    by (simp_all add: ex_split_def ex_drain_def ex_capped_def ex_thread_def)
  note t = pipe_writes_atomic [OF o, of ex_split False, unfolded ex_split_run v ex_sizes]
  from t have c: "write_chain 2 1002 [Pipe_write 1000 6, Pipe_write 1004 6, Pipe_write 1008 6]"
    by simp
  from t s have a: "(6::int) \<le> get_atomic_write_size ex_online"
    and p: "split_point ex_online ex_split 1006" "split_point ex_online ex_split 1010"
    by simp_all
  from o s ex_split_run c a p v(2) ex_split_instr_of show ?thesis by blast
qed

text \<open>
  The bound rests on the assertion in \<^verbatim>\<open>atomic_pipe_write\<close>: for a buffer of more than
  the atomic write size without an instruction entry, the drain stops there and has
  written nothing.
\<close>

lemma ex_data_only_run:
  "\<exists>s. memtrace ex_online ex_data_only False = Inl (ASSERT_FAILED, s) \<and> io_log s = []"
  by (simp add: memtrace_def ex_online_def ex_data_only_def ex_drain_def ex_capped_def
     ex_thread_def ex_instru_def buf_hdr_slots_size_def BUF_HDR_SLOTS_def Let_def
     over_size_cap_def write_buffer_def entry_loop.simps entry_step_def translate_entry_def
     ex_entry_type_def atomic_pipe_write_def)

subsection \<open>Out of memory in a process of several threads\<close>

lemma config_thread_id [simp]:
  "max_buf_size (C\<lparr>dr_get_thread_id := t\<rparr>) = max_buf_size C"
  "buf_hdr_slots_size (C\<lparr>dr_get_thread_id := t\<rparr>) = buf_hdr_slots_size C"
  by (simp_all add: max_buf_size_def trace_buf_size_def redzone_size_def
        buf_hdr_slots_size_def)

lemma thread_view_fields [simp]:
  "data (thread_view P t) = thread_data P t"
  "BUF_PTR (thread_view P t) = thread_buf_ptr P t"
  "op_max_trace_size (thread_view P t) = proc_max_trace_size P"
  "io_log (thread_view P t) = proc_io_log P"
  "alloc_results (thread_view P t) = proc_alloc_results P"
  by (simp_all add: thread_view_def)

lemma thread_return_fields [simp]:
  "thread_data (thread_return P t st) t = data st"
  "u \<noteq> t \<Longrightarrow> thread_data (thread_return P t st) u = thread_data P u"
  "thread_buf_ptr (thread_return P t st) t = BUF_PTR st"
  "u \<noteq> t \<Longrightarrow> thread_buf_ptr (thread_return P t st) u = thread_buf_ptr P u"
  "proc_max_trace_size (thread_return P t st) = op_max_trace_size st"
  "proc_io_log (thread_return P t st) = io_log st"
  "proc_alloc_results (thread_return P t st) = alloc_results st"
  by (simp_all add: thread_return_def)

lemma fill_fields [simp]:
  "thread_data (fill P t m bp) = thread_data P"
  "thread_buf_ptr (fill P t m bp) t = bp"
  "proc_max_trace_size (fill P t m bp) = proc_max_trace_size P"
  "proc_io_log (fill P t m bp) = proc_io_log P"
  "proc_alloc_results (fill P t m bp) = proc_alloc_results P"
  by (simp_all add: fill_def)

lemma process_log_clean_call:
  "process_log (clean_call C P t) =
     io_log (final_state (memtrace (C\<lparr>dr_get_thread_id := t\<rparr>) (thread_view P t) False))"
  by (auto simp: process_log_def clean_call_def final_state_def split: sum.splits)

lemma write_frame_trace_file:
  assumes "write_frame st st'"
  shows "trace_file (data st') = trace_file (data st)"
proof -
  from assms have e: "(data st')\<lparr>num_refs := 0\<rparr> = (data st)\<lparr>num_refs := 0\<rparr>"
    by (simp add: write_frame_def)
  from arg_cong [OF e, of trace_file] show ?thesis by simp
qed

lemma alloc_fails:
  "set (alloc_results st) \<subseteq> {0} \<Longrightarrow> fst (dr_raw_mem_alloc st n) = 0"
  by (cases "alloc_results st") (auto simp: dr_raw_mem_alloc_def)

lemma alloc_fails_tl: "set xs \<subseteq> {0::nat} \<Longrightarrow> set (tl xs) \<subseteq> {0}"
  by (cases xs) auto

text \<open>
  In offline mode without physical addresses the loop over the entries only counts.
\<close>

lemma entry_loop_offline:
  "op_offline C \<Longrightarrow> \<not> (have_phys C \<and> op_use_physical C) \<Longrightarrow>
   sizeof_entry (instru C) \<noteq> 0 \<Longrightarrow>
   \<exists>st'. entry_loop C bp st ps pe mr = Inr (st', ps, pe) \<and> write_frame st st' \<and>
     io_log st' = io_log st"
proof (induction C bp st ps pe mr rule: entry_loop.induct)
  case (1 C bp st ps pe mr)
  note off = "1.prems"(1) and np = "1.prems"(2) and nz = "1.prems"(3)
  show ?case
  proof (cases "mr < bp")
    case False
    then show ?thesis by (simp add: entry_loop.simps)
  next
    case True
    let ?s1 = "st\<lparr>data := (data st)\<lparr>num_refs := num_refs (data st) + 1\<rparr>\<rparr>"
    from off np have s: "entry_step C st ps pe mr = Inr (?s1, ps, pe)"
      by (auto simp: entry_step_def translate_entry_def Let_def)
    from "1.IH" [OF True nz s refl refl off np nz] obtain st' where
      l: "entry_loop C bp ?s1 ps pe (mr + sizeof_entry (instru C)) = Inr (st', ps, pe)"
      and f: "write_frame ?s1 st'" and g: "io_log st' = io_log ?s1"
      by blast
    from True nz s l have "entry_loop C bp st ps pe mr = Inr (st', ps, pe)"
      by (subst entry_loop.simps) simp
    moreover from write_frame_trans [OF write_frame_num_refs f] have "write_frame st st'" .
    moreover from g have "io_log st' = io_log st" by simp
    ultimately show ?thesis by blast
  qed
qed

text \<open>
  A drain in offline mode with a handoff callback that accepts the buffer, when the
  size cap is not in force: the buffer is handed off from its base to the buffer
  pointer, and \<^verbatim>\<open>create_buffer\<close> is called.
\<close>

lemma write_buffer_handoff:
  assumes off: "op_offline C" and np: "\<not> (have_phys C \<and> op_use_physical C)"
    and nz: "sizeof_entry (instru C) \<noteq> 0"
    and h: "handoff_buf C = Some h" and acc: "\<forall>f p n k. h f p n k"
  shows "\<exists>st'. write_buffer C st hs bp = Inr st' \<and> write_frame st st' \<and>
           io_log st' =
             io_log st @
             [Handoff (trace_file (data st)) (buf_base (data st))
                (int bp - int (buf_base (data st))) (max_buf_size C)]"
proof -
  let ?b = "buf_base (data st)"
  from entry_loop_offline [OF off np nz, of bp st ?b ?b "?b + hs"] obtain st1 where
    l: "entry_loop C bp st ?b ?b (?b + hs) = Inr (st1, ?b, ?b)"
    and f: "write_frame st st1" and g: "io_log st1 = io_log st"
    by blast
  let ?e = "Handoff (trace_file (data st)) ?b (int bp - int ?b) (max_buf_size C)"
  let ?s2 = "st1\<lparr>io_log := io_log st1 @ [?e]\<rparr>"
  from write_frame_trace_file [OF f] off h acc
  have w: "write_trace_data C st1 ?b bp = Inr (?s2, ?b)"
    by (simp add: write_trace_data_def Let_def)
  from l w off have "write_buffer C st hs bp = Inr ?s2"
    by (simp add: write_buffer_def)
  moreover from f have "write_frame st ?s2" by (rule write_frame_io_log)
  moreover from g have "io_log ?s2 = io_log st @ [?e]" by simp
  ultimately show ?thesis by blast
qed

lemma memtrace_handoff:
  assumes off: "op_offline C" and np: "\<not> (have_phys C \<and> op_use_physical C)"
    and nz: "sizeof_entry (instru C) \<noteq> 0"
    and h: "handoff_buf C = Some h" and acc: "\<forall>f p n k. h f p n k"
    and nc: "\<not> over_size_cap st skip"
    and ne: "BUF_PTR st \<noteq> buf_base (data st) + buf_hdr_slots_size C"
  shows "\<exists>st3.
           write_frame
             (st\<lparr>data := (data st)\<lparr>bytes_written := bytes_written (data st) +
                     word_of_int (int (BUF_PTR st) - int (buf_base (data st)))\<rparr>\<rparr>) st3 \<and>
           io_log st3 =
             io_log st @
             [Handoff (trace_file (data st)) (buf_base (data st))
                (int (BUF_PTR st) - int (buf_base (data st))) (max_buf_size C)] \<and>
           memtrace C st skip =
             (case create_buffer C st3 of
                Inl e \<Rightarrow> Inl e
              | Inr st4 \<Rightarrow> Inr (st4\<lparr>BUF_PTR := buf_base (data st4) + buf_hdr_slots_size C\<rparr>))"
proof -
  define hs where "hs = (if num_refs (data st) = 0 \<and> op_offline C
                         then init_header_size (data st) else buf_hdr_slots_size C)"
  define st1 where "st1 = (if num_refs (data st) = 0 \<and> op_offline C then st
       else st\<lparr>memory := append_unit_header (instru C) (memory st) (buf_base (data st))
                           (dr_get_thread_id C)\<rparr>)"
  define st2 where "st2 = st1\<lparr>data := (data st1)\<lparr>bytes_written := bytes_written (data st1) +
         word_of_int (int (BUF_PTR st) - int (buf_base (data st1)))\<rparr>\<rparr>"
  let ?s = "st\<lparr>data := (data st)\<lparr>bytes_written := bytes_written (data st) +
                     word_of_int (int (BUF_PTR st) - int (buf_base (data st)))\<rparr>\<rparr>"
  have f2: "write_frame ?s st2"
    by (simp add: st2_def st1_def write_frame_def)
  have v2: "trace_file (data st2) = trace_file (data st)"
    "buf_base (data st2) = buf_base (data st)" "io_log st2 = io_log st"
    by (simp_all add: st2_def st1_def)
  from nc have o1: "\<not> over_size_cap st1 skip" by (simp add: st1_def)
  from write_buffer_handoff [OF off np nz h acc, of st2 hs "BUF_PTR st"] obtain st3 where
    w: "write_buffer C st2 hs (BUF_PTR st) = Inr st3"
    and f3: "write_frame st2 st3"
    and g: "io_log st3 =
             io_log st @
             [Handoff (trace_file (data st)) (buf_base (data st))
                (int (BUF_PTR st) - int (buf_base (data st))) (max_buf_size C)]"
    unfolding v2 by blast
  have "memtrace C st skip =
          (case create_buffer C st3 of
             Inl e \<Rightarrow> Inl e
           | Inr st4 \<Rightarrow> Inr (st4\<lparr>BUF_PTR := buf_base (data st4) + buf_hdr_slots_size C\<rparr>))"
    using ne o1 w h unfolding memtrace_def Let_def hs_def st1_def st2_def
    by (auto split: if_splits sum.splits)
  with write_frame_trans [OF f2 f3] g show ?thesis by blast
qed

lemma memtrace_handoff_log:
  assumes off: "op_offline C" and np: "\<not> (have_phys C \<and> op_use_physical C)"
    and nz: "sizeof_entry (instru C) \<noteq> 0"
    and h: "handoff_buf C = Some h" and acc: "\<forall>f p n k. h f p n k"
    and nc: "\<not> over_size_cap st skip"
    and ne: "BUF_PTR st \<noteq> buf_base (data st) + buf_hdr_slots_size C"
  shows "io_log (final_state (memtrace C st skip)) =
           io_log st @
           [Handoff (trace_file (data st)) (buf_base (data st))
              (int (BUF_PTR st) - int (buf_base (data st))) (max_buf_size C)]"
proof -
  from memtrace_handoff [OF assms] obtain st3 where
    g: "io_log st3 =
             io_log st @
             [Handoff (trace_file (data st)) (buf_base (data st))
                (int (BUF_PTR st) - int (buf_base (data st))) (max_buf_size C)]"
    and m: "memtrace C st skip =
             (case create_buffer C st3 of
                Inl e \<Rightarrow> Inl e
              | Inr st4 \<Rightarrow> Inr (st4\<lparr>BUF_PTR := buf_base (data st4) + buf_hdr_slots_size C\<rparr>))"
    by blast
  have "io_log (final_state (memtrace C st skip)) = io_log st3"
    unfolding m using create_buffer_log [of C st3]
    by (auto simp: final_state_def split: sum.splits)
  with g show ?thesis by simp
qed

text \<open>
  The same drain when the allocation of the new buffer fails and the thread has a
  reserve buffer: the thread goes on in its reserve buffer, and \<^verbatim>\<open>max_trace_size\<close> is
  one less than what the thread has written.
\<close>

lemma memtrace_handoff_oom:
  assumes off: "op_offline C" and np: "\<not> (have_phys C \<and> op_use_physical C)"
    and nz: "sizeof_entry (instru C) \<noteq> 0"
    and h: "handoff_buf C = Some h" and acc: "\<forall>f p n k. h f p n k"
    and nc: "\<not> over_size_cap st skip"
    and ne: "BUF_PTR st \<noteq> buf_base (data st) + buf_hdr_slots_size C"
    and r: "reserve_buf (data st) \<noteq> 0"
    and al: "set (alloc_results st) \<subseteq> {0}"
  shows "\<exists>st'. memtrace C st skip = Inr st' \<and>
           io_log st' =
             io_log st @
             [Handoff (trace_file (data st)) (buf_base (data st))
                (int (BUF_PTR st) - int (buf_base (data st))) (max_buf_size C)] \<and>
           buf_base (data st') = reserve_buf (data st) \<and>
           reserve_buf (data st') = reserve_buf (data st) \<and>
           trace_file (data st') = trace_file (data st) \<and>
           bytes_written (data st') =
             bytes_written (data st) +
             word_of_int (int (BUF_PTR st) - int (buf_base (data st))) \<and>
           op_max_trace_size st' =
             bytes_written (data st) +
             word_of_int (int (BUF_PTR st) - int (buf_base (data st))) - 1 \<and>
           alloc_results st' = tl (alloc_results st)"
proof -
  let ?s = "st\<lparr>data := (data st)\<lparr>bytes_written := bytes_written (data st) +
                     word_of_int (int (BUF_PTR st) - int (buf_base (data st)))\<rparr>\<rparr>"
  from memtrace_handoff [OF off np nz h acc nc ne] obtain st3 where
    f: "write_frame ?s st3"
    and g: "io_log st3 =
             io_log st @
             [Handoff (trace_file (data st)) (buf_base (data st))
                (int (BUF_PTR st) - int (buf_base (data st))) (max_buf_size C)]"
    and m: "memtrace C st skip =
             (case create_buffer C st3 of
                Inl e \<Rightarrow> Inl e
              | Inr st4 \<Rightarrow> Inr (st4\<lparr>BUF_PTR := buf_base (data st4) + buf_hdr_slots_size C\<rparr>))"
    by blast
  from f have a3: "alloc_results st3 = alloc_results st" by (simp add: write_frame_def)
  from write_frame_data(2,3) [OF f] write_frame_trace_file [OF f]
  have d3: "bytes_written (data st3) =
      bytes_written (data st) + word_of_int (int (BUF_PTR st) - int (buf_base (data st)))"
    "reserve_buf (data st3) = reserve_buf (data st)"
    "trace_file (data st3) = trace_file (data st)"
    by simp_all
  from al a3 have "fst (dr_raw_mem_alloc st3 (max_buf_size C)) = 0"
    by (simp add: alloc_fails)
  from create_buffer_reserve [OF this] r d3(2)
  have c: "create_buffer C st3 =
      Inr (st3\<lparr>data := (data st3)\<lparr>buf_base := reserve_buf (data st3)\<rparr>,
               op_max_trace_size := bytes_written (data st3) - 1,
               alloc_results := tl (alloc_results st3)\<rparr>)"
    by simp
  show ?thesis
    unfolding m c using g a3 d3 by simp
qed

text \<open>
  While \<^verbatim>\<open>max_trace_size\<close> stays as the thread has set it, the clean calls of the thread
  are suppressed: they return with nothing written, the option and the data of the
  thread as they were.
\<close>

lemma clean_call_over_cap:
  assumes "over_size_cap (thread_view P t) False"
  shows "\<exists>P1. clean_call C P t = Inr P1 \<and> proc_io_log P1 = proc_io_log P \<and>
           proc_max_trace_size P1 = proc_max_trace_size P \<and>
           thread_data P1 t = thread_data P t"
proof -
  from memtrace_over_cap [OF assms, of "C\<lparr>dr_get_thread_id := t\<rparr>"] obtain m where
    "memtrace (C\<lparr>dr_get_thread_id := t\<rparr>) (thread_view P t) False =
       Inr ((thread_view P t)
              \<lparr>memory := m,
               BUF_PTR := buf_base (data (thread_view P t)) +
                          buf_hdr_slots_size (C\<lparr>dr_get_thread_id := t\<rparr>)\<rparr>)" ..
  then show ?thesis by (simp add: clean_call_def)
qed

text \<open>
  Claim C7 fails on the code in a process of more than one thread: \<^verbatim>\<open>max_trace_size\<close>
  is one option for the whole process, and \<^verbatim>\<open>create_buffer\<close> sets it from the count of
  the thread that runs it. Here no allocation succeeds any more. Thread \<open>a\<close> hands its
  buffer off in a clean call, fails to allocate the next one, goes on in its reserve
  buffer and sets the cap to one less than what it has written, so that its drains are
  suppressed. Thread \<open>c\<close> is not over that cap; its clean call hands its buffer off,
  fails to allocate as well and sets the cap anew, from its own count, which is not
  below what \<open>a\<close> has written. The next clean call of \<open>a\<close> is then not suppressed: it
  hands the reserve buffer of \<open>a\<close> to the callback.
\<close>

theorem reserve_buffer_handed_off:
  assumes off: "op_offline C" and np: "\<not> (have_phys C \<and> op_use_physical C)"
    and nz: "sizeof_entry (instru C) \<noteq> 0"
    and h: "handoff_buf C = Some h" and acc: "\<forall>f p n k. h f p n k"
    and ac: "a \<noteq> c"
    and oom: "set (proc_alloc_results P) \<subseteq> {0}"
    and ra: "reserve_buf (thread_data P a) \<noteq> 0"
    and rc: "reserve_buf (thread_data P c) \<noteq> 0"
    and nea: "thread_buf_ptr P a \<noteq> buf_base (thread_data P a) + buf_hdr_slots_size C"
    and nec: "thread_buf_ptr P c \<noteq> buf_base (thread_data P c) + buf_hdr_slots_size C"
    and ner: "bp \<noteq> reserve_buf (thread_data P a) + buf_hdr_slots_size C"
    and a0: "\<not> over_size_cap (thread_view P a) False"
    and a1: "1 < drained_total P a"
    and c1: "bytes_written (thread_data P c) \<le> drained_total P a - 1"
    and c2: "drained_total P a \<le> drained_total P c - 1"
  shows "\<exists>P1. clean_call C P a = Inr P1 \<and>
           buf_base (thread_data P1 a) = reserve_buf (thread_data P a) \<and>
           proc_max_trace_size P1 = drained_total P a - 1 \<and>
           over_size_cap (thread_view P1 a) False \<and>
           proc_io_log P1 =
             proc_io_log P @
             [Handoff (trace_file (thread_data P a)) (buf_base (thread_data P a))
                (buffer_bytes P a) (max_buf_size C)] \<and>
           process_log
             (process_run C P1 [Thread_clean_call c, Thread_fill a m bp, Thread_clean_call a]) =
             proc_io_log P1 @
             [Handoff (trace_file (thread_data P c)) (buf_base (thread_data P c))
                (buffer_bytes P c) (max_buf_size C),
              Handoff (trace_file (thread_data P a)) (reserve_buf (thread_data P a))
                (int bp - int (reserve_buf (thread_data P a))) (max_buf_size C)]"
proof -
  have cf: "op_offline (C\<lparr>dr_get_thread_id := t\<rparr>)"
    "\<not> (have_phys (C\<lparr>dr_get_thread_id := t\<rparr>) \<and> op_use_physical (C\<lparr>dr_get_thread_id := t\<rparr>))"
    "sizeof_entry (instru (C\<lparr>dr_get_thread_id := t\<rparr>)) \<noteq> 0"
    "handoff_buf (C\<lparr>dr_get_thread_id := t\<rparr>) = Some h" for t
    using off np nz h by simp_all
  let ?ea = "Handoff (trace_file (thread_data P a)) (buf_base (thread_data P a))
                (buffer_bytes P a) (max_buf_size C)"
  let ?ec = "Handoff (trace_file (thread_data P c)) (buf_base (thread_data P c))
                (buffer_bytes P c) (max_buf_size C)"
  let ?er = "Handoff (trace_file (thread_data P a)) (reserve_buf (thread_data P a))
                (int bp - int (reserve_buf (thread_data P a))) (max_buf_size C)"
  from memtrace_handoff_oom [OF cf [of a] acc, where st = "thread_view P a" and skip = False]
    a0 nea ra oom
  obtain sa where
    ma: "memtrace (C\<lparr>dr_get_thread_id := a\<rparr>) (thread_view P a) False = Inr sa"
    and la: "io_log sa = proc_io_log P @ [?ea]"
    and da: "buf_base (data sa) = reserve_buf (thread_data P a)"
      "reserve_buf (data sa) = reserve_buf (thread_data P a)"
      "trace_file (data sa) = trace_file (thread_data P a)"
      "bytes_written (data sa) = drained_total P a"
    and ca: "op_max_trace_size sa = drained_total P a - 1"
    and aa: "alloc_results sa = tl (proc_alloc_results P)"
    by (auto simp: buffer_bytes_def drained_total_def)
  define P1 where "P1 = thread_return P a sa"
  from ma have r1: "clean_call C P a = Inr P1"
    by (simp add: clean_call_def P1_def)
  from ac have v1: "thread_data P1 a = data sa" "thread_data P1 c = thread_data P c"
    "thread_buf_ptr P1 c = thread_buf_ptr P c" "proc_max_trace_size P1 = drained_total P a - 1"
    "proc_io_log P1 = proc_io_log P @ [?ea]"
    "proc_alloc_results P1 = tl (proc_alloc_results P)"
    by (simp_all add: P1_def ca la aa)
  from capped_after_decrement [OF a1] have o1: "over_size_cap (thread_view P1 a) False"
    by (simp add: over_size_cap_def v1 da)
  from c1 have nc: "\<not> over_size_cap (thread_view P1 c) False"
    by (simp add: over_size_cap_def v1 not_less)
  from oom have oom1: "set (alloc_results (thread_view P1 c)) \<subseteq> {0}"
    by (simp add: v1 alloc_fails_tl)
  from memtrace_handoff_oom [OF cf [of c] acc nc _ _ oom1] nec rc
  obtain sc where
    mc: "memtrace (C\<lparr>dr_get_thread_id := c\<rparr>) (thread_view P1 c) False = Inr sc"
    and lc: "io_log sc = proc_io_log P1 @ [?ec]"
    and cc: "op_max_trace_size sc = drained_total P c - 1"
    by (auto simp: buffer_bytes_def drained_total_def v1)
  define P2 where "P2 = thread_return P1 c sc"
  from mc have r2: "clean_call C P1 c = Inr P2"
    by (simp add: clean_call_def P2_def)
  from ac have v2: "thread_data P2 a = data sa" "proc_max_trace_size P2 = drained_total P c - 1"
    "proc_io_log P2 = proc_io_log P1 @ [?ec]"
    by (simp_all add: P2_def v1 cc lc)
  let ?v = "thread_view (fill P2 a m bp) a"
  from c2 have n3: "\<not> over_size_cap ?v False"
    by (simp add: over_size_cap_def v2 da not_less)
  from ner have ne3: "BUF_PTR ?v \<noteq> buf_base (data ?v) + buf_hdr_slots_size (C\<lparr>dr_get_thread_id := a\<rparr>)"
    by (simp add: v2 da)
  from memtrace_handoff_log [OF cf [of a] acc n3 ne3]
  have "io_log (final_state (memtrace (C\<lparr>dr_get_thread_id := a\<rparr>) ?v False)) =
          proc_io_log P2 @ [?er]"
    by (simp add: v2 da)
  then have "process_log (clean_call C (fill P2 a m bp) a) = proc_io_log P1 @ [?ec, ?er]"
    by (simp add: process_log_clean_call v2)
  with r2 have "process_log
      (process_run C P1 [Thread_clean_call c, Thread_fill a m bp, Thread_clean_call a]) =
      proc_io_log P1 @ [?ec, ?er]"
    by (auto simp: process_log_def split: sum.splits)
  with r1 v1(1,4,5) da(1) o1 show ?thesis by simp
qed

lemma ex_process_sizes:
  "buf_hdr_slots_size ex_offline = 2" "max_buf_size ex_offline = 16384"
  "op_offline ex_offline" "\<not> (have_phys ex_offline \<and> op_use_physical ex_offline)"
  "sizeof_entry (instru ex_offline) \<noteq> 0"
  "handoff_buf ex_offline = Some (\<lambda>f p n k. True)"
  by (simp_all add: buf_hdr_slots_size_def max_buf_size_def trace_buf_size_def redzone_size_def
        ex_offline_def ex_online_def ex_instru_def BUF_HDR_SLOTS_def MAX_NUM_ENTRIES_def)

lemma ex_process_values:
  "thread_data ex_process 7 = ex_thread" "thread_data ex_process 8 = ex_thread2"
  "thread_buf_ptr ex_process 7 = 1006" "thread_buf_ptr ex_process 8 = 20006"
  "proc_io_log ex_process = []" "proc_alloc_results ex_process = []"
  "proc_max_trace_size ex_process = 0"
  "buffer_bytes ex_process 7 = 6" "buffer_bytes ex_process 8 = 6"
  "drained_total ex_process 7 = 106" "drained_total ex_process 8 = 110"
  by (simp_all add: ex_process_def ex_thread_def ex_thread2_def buffer_bytes_def
        drained_total_def)

theorem reserve_buffer_handed_off_witness:
  "\<not> over_size_cap (thread_view ex_process 7) False \<and>
   reserve_buf (thread_data ex_process 7) = 50000 \<and>
   (\<exists>P1. clean_call ex_offline ex_process 7 = Inr P1 \<and>
      buf_base (thread_data P1 7) = 50000 \<and> proc_max_trace_size P1 = 105 \<and>
      over_size_cap (thread_view P1 7) False \<and>
      proc_io_log P1 = [Handoff 3 1000 6 16384] \<and>
      process_log
        (process_run ex_offline P1
           [Thread_clean_call 8, Thread_fill 7 ex_memory 50006, Thread_clean_call 7]) =
        [Handoff 3 1000 6 16384, Handoff 4 20000 6 16384, Handoff 3 50000 6 16384])"
proof -
  have d: "reserve_buf ex_thread = 50000" "reserve_buf ex_thread2 = 70000"
    "buf_base ex_thread = 1000" "buf_base ex_thread2 = 20000"
    "trace_file ex_thread = 3" "trace_file ex_thread2 = 4"
    "bytes_written ex_thread2 = 104"
    by (simp_all add: ex_thread_def ex_thread2_def)
  have a0: "\<not> over_size_cap (thread_view ex_process 7) False"
    by (simp add: over_size_cap_def ex_process_values)
  have t: "\<exists>P1. clean_call ex_offline ex_process 7 = Inr P1 \<and>
      buf_base (thread_data P1 7) = 50000 \<and> proc_max_trace_size P1 = 105 \<and>
      over_size_cap (thread_view P1 7) False \<and>
      proc_io_log P1 = [Handoff 3 1000 6 16384] \<and>
      process_log
        (process_run ex_offline P1
           [Thread_clean_call 8, Thread_fill 7 ex_memory 50006, Thread_clean_call 7]) =
        proc_io_log P1 @ [Handoff 4 20000 6 16384, Handoff 3 50000 6 16384]"
    using reserve_buffer_handed_off [OF ex_process_sizes(3,4,5,6),
        where a = 7 and c = 8 and P = ex_process and bp = 50006 and m = ex_memory] a0
    by (simp add: ex_process_values ex_process_sizes d)
  then obtain P1 where "clean_call ex_offline ex_process 7 = Inr P1"
    "buf_base (thread_data P1 7) = 50000" "proc_max_trace_size P1 = 105"
    "over_size_cap (thread_view P1 7) False"
    "proc_io_log P1 = [Handoff 3 1000 6 16384]"
    "process_log
        (process_run ex_offline P1
           [Thread_clean_call 8, Thread_fill 7 ex_memory 50006, Thread_clean_call 7]) =
        [Handoff 3 1000 6 16384, Handoff 4 20000 6 16384, Handoff 3 50000 6 16384]"
    by auto
  with a0 show ?thesis by (simp add: ex_process_values d)
qed

end
